theory Spec2Isabelle
  imports Complex_Main "HOL-Library.Word"
begin

section \<open>The renter's upload path (modules/renter/upload.go)\<close>

text \<open>
  The file embeds \<^verbatim>\<open>uploadWorker\<close>, \<^verbatim>\<open>upload\<close>, \<^verbatim>\<open>checkWalletBalance\<close> and
  \<^verbatim>\<open>Upload\<close>. Go's goroutines and unbuffered channels are modelled by an interleaving
  semantics: a state holds the program point of \<^verbatim>\<open>upload\<close> and of every worker, and a
  schedule (a list of events) says which goroutine moves next. A send and the matching
  receive on an unbuffered channel are one event.
\<close>

subsection \<open>Data\<close>

type_synonym byte = "8 word"

text \<open>
  Go's \<^verbatim>\<open>error\<close> values: the two sentinels of package \<^verbatim>\<open>io\<close> that \<^verbatim>\<open>upload\<close> compares
  with, and every other error, identified by its message.
\<close>

datatype error = EOF | ErrUnexpectedEOF | ErrOther string

text \<open>\<^verbatim>\<open>type uploadPiece struct { data []byte; chunkIndex uint64; pieceIndex uint64 }\<close>\<close>

record uploadPiece =
  data :: "byte list"
  chunkIndex :: "64 word"
  pieceIndex :: "64 word"

text \<open>
  Modelled from the spec: the declaration of struct \<^verbatim>\<open>fileContract\<close> is not in the
  source; \<^verbatim>\<open>upload\<close> reads its field \<^verbatim>\<open>IP\<close> only. The spec calls it the host-identified
  accumulator of what the host has stored so far: \<open>IP\<close> is the host identity, \<open>Pieces\<close>
  the (chunk index, piece index) pairs stored.
\<close>

record fileContract =
  IP :: string
  Pieces :: "(64 word \<times> 64 word) list"

text \<open>
  Interface \<^verbatim>\<open>uploader\<close>: a session of type \<open>'h\<close> with its two methods. \<^verbatim>\<open>addPiece\<close> may
  change the session whether or not it returns an error.
\<close>

record 'h uploader =
  addPiece :: "'h \<Rightarrow> uploadPiece \<Rightarrow> error option \<times> 'h"
  fileContract :: "'h \<Rightarrow> fileContract"

text \<open>
  Interface \<^verbatim>\<open>modules.ErasureCoder\<close>, of which the source calls \<^verbatim>\<open>NumPieces\<close>,
  \<^verbatim>\<open>MinPieces\<close> (both Go \<^verbatim>\<open>int\<close>) and \<^verbatim>\<open>Encode\<close>.
\<close>

record erasureCoder =
  NumPieces :: int
  MinPieces :: int
  Encode :: "byte list \<Rightarrow> error + byte list list"

text \<open>
  Struct \<^verbatim>\<open>file\<close>, here \<open>file_rec\<close> (its declaration is not in the source; these are the fields the source
  and \<^verbatim>\<open>newFile\<close>'s call use). \<^verbatim>\<open>contracts\<close> is a Go map keyed by the contract's \<^verbatim>\<open>IP\<close>.
\<close>

record file_rec =
  name :: string
  size_f :: "64 word"
  contracts :: "string \<rightharpoonup> fileContract"
  masterKey :: "byte list"
  erasureCode :: erasureCoder
  pieceSize :: "64 word"
  mode :: "32 word"
  bytesUploaded :: "64 word"
  chunksUploaded :: "64 word"

text \<open>
  Modelled from the spec: method \<^verbatim>\<open>chunkSize\<close> of \<^verbatim>\<open>file\<close> is not in the source. The
  spec: a chunk has fixed length piece size \<times> data-piece count; the data-piece count of
  an erasure coder is its \<^verbatim>\<open>MinPieces\<close>. The product is a \<^verbatim>\<open>uint64\<close>.
\<close>

definition chunkSize :: "file_rec \<Rightarrow> 64 word" where
  "chunkSize f = pieceSize f * word_of_int (MinPieces (erasureCode f))"

subsection \<open>The source stream and \<^verbatim>\<open>io.ReadFull\<close>\<close>

text \<open>
  An \<^verbatim>\<open>io.Reader\<close>: the bytes it still delivers and what it reports once they are used
  up (\<open>None\<close> is a clean \<^verbatim>\<open>io.EOF\<close>).
\<close>

record reader =
  pending :: "byte list"
  failure :: "error option"

text \<open>
  \<^verbatim>\<open>io.ReadFull(r, buf)\<close> of Go's library, for a buffer of \<open>n\<close> zero bytes: it reads until
  the buffer is full or the reader reports an error. A full buffer gives no error.
  Otherwise the reader's error is returned, except that \<^verbatim>\<open>io.EOF\<close> after at least one
  byte becomes \<^verbatim>\<open>io.ErrUnexpectedEOF\<close>. The unread tail of the buffer stays zero.
\<close>

definition ReadFull :: "reader \<Rightarrow> nat \<Rightarrow> byte list \<times> error option \<times> reader" where
  "ReadFull r n =
     (if n \<le> length (pending r)
      then (take n (pending r), None, r\<lparr>pending := drop n (pending r)\<rparr>)
      else (pending r @ replicate (n - length (pending r)) 0,
            Some (case failure r of
                    None \<Rightarrow> if pending r = [] then EOF else ErrUnexpectedEOF
                  | Some EOF \<Rightarrow> if pending r = [] then EOF else ErrUnexpectedEOF
                  | Some e \<Rightarrow> e),
            r\<lparr>pending := []\<rparr>))"

subsection \<open>Goroutines of \<^verbatim>\<open>upload\<close>\<close>

text \<open>
  Program points of \<^verbatim>\<open>upload\<close> after the workers are spawned:
  \<^item> \<open>Reading i\<close>: at the head of the chunk loop (line 80) with loop variable \<open>i\<close>;
  \<^item> \<open>Sending i pieces j\<close>: in the loop of line 95, about to send piece \<open>j\<close>;
  \<^item> \<open>Collecting k\<close>: \<^verbatim>\<open>reqChan\<close> is closed and \<open>k\<close> rounds of the loop of line 103 remain;
  \<^item> \<open>Returned e\<close>: \<^verbatim>\<open>upload\<close> has returned \<open>e\<close> (\<open>None\<close> is \<^verbatim>\<open>nil\<close>).
\<close>

datatype upload_pc =
    Reading "64 word"
  | Sending "64 word" "byte list list" nat
  | Collecting nat
  | Returned "error option"

text \<open>
  Program points of \<^verbatim>\<open>uploadWorker\<close>:
  \<^item> \<open>Idle\<close>: blocked in \<^verbatim>\<open>range reqChan\<close> (line 49);
  \<^item> \<open>Busy req\<close>: holds \<open>req\<close>, about to call \<^verbatim>\<open>addPiece\<close> (line 50);
  \<^item> \<open>Reporting\<close>: left the loop, blocked in the send on \<^verbatim>\<open>respChan\<close> (line 58);
  \<^item> \<open>Done\<close>: returned.
\<close>

datatype worker_pc = Idle | Busy uploadPiece | Reporting | Done

record 'h ustate =
  pc :: upload_pc
  rdr :: reader
  closed :: bool
  workers :: "('h \<times> worker_pc) list"
  fl :: file_rec

text \<open>
  Events: a step of \<^verbatim>\<open>upload\<close> alone; worker \<open>w\<close> receiving the piece \<^verbatim>\<open>upload\<close> sends;
  worker \<open>w\<close> running \<^verbatim>\<open>addPiece\<close> and the lines after it; worker \<open>w\<close> seeing \<^verbatim>\<open>reqChan\<close>
  closed; worker \<open>w\<close> sending its contract to \<^verbatim>\<open>upload\<close>.
\<close>

datatype event = MainStep | Recv nat | AddPiece nat | SeeClosed nat | SendContract nat

text \<open>
  Lines 80-93 and 98-102: what \<^verbatim>\<open>upload\<close> does without a partner. The chunk buffer of
  line 82 is taken to be allocated.
\<close>

definition mainStep :: "'h ustate \<Rightarrow> 'h ustate option" where
  "mainStep s =
     (case pc s of
        Reading i \<Rightarrow>
          (case ReadFull (rdr s) (unat (chunkSize (fl s))) of
             (chunk, err, r') \<Rightarrow>
               if err = Some EOF
               then Some (s\<lparr>pc := Collecting (length (workers s)), rdr := r', closed := True\<rparr>)
               else if err \<noteq> None \<and> err \<noteq> Some ErrUnexpectedEOF
               then Some (s\<lparr>pc := Returned err, rdr := r'\<rparr>)
               else (case Encode (erasureCode (fl s)) chunk of
                       Inl e \<Rightarrow> Some (s\<lparr>pc := Returned (Some e), rdr := r'\<rparr>)
                     | Inr pieces \<Rightarrow> Some (s\<lparr>pc := Sending i pieces 0, rdr := r'\<rparr>)))
      | Sending i pieces j \<Rightarrow>
          if j < length pieces then None
          else Some (s\<lparr>pc := Reading (i + 1),
                       fl := (fl s)\<lparr>chunksUploaded := chunksUploaded (fl s) + 1\<rparr>\<rparr>)
      | Collecting k \<Rightarrow> (if k = 0 then Some (s\<lparr>pc := Returned None\<rparr>) else None)
      | Returned e \<Rightarrow> None)"

text \<open>
  One event. \<open>None\<close>: the event is not enabled in \<open>s\<close> (the goroutine is elsewhere, or
  blocked because its partner is not ready).
\<close>

fun step :: "'h uploader \<Rightarrow> event \<Rightarrow> 'h ustate \<Rightarrow> 'h ustate option" where
  "step U MainStep s = mainStep s"
| "step U (Recv w) s =
     (case pc s of
        Sending i pieces j \<Rightarrow>
          if j < length pieces \<and> w < length (workers s) \<and> snd (workers s ! w) = Idle
          then Some (s\<lparr>pc := Sending i pieces (Suc j),
                       workers := (workers s)[w := (fst (workers s ! w),
                          Busy \<lparr>data = pieces ! j, chunkIndex = i, pieceIndex = of_nat j\<rparr>)]\<rparr>)
          else None
      | _ \<Rightarrow> None)"
| "step U (AddPiece w) s =
     (if w < length (workers s)
      then (case snd (workers s ! w) of
              Busy req \<Rightarrow>
                (case addPiece U (fst (workers s ! w)) req of
                   (Some err, h') \<Rightarrow> Some (s\<lparr>workers := (workers s)[w := (h', Reporting)]\<rparr>)
                 | (None, h') \<Rightarrow>
                     Some (s\<lparr>workers := (workers s)[w := (h', Idle)],
                             fl := (fl s)\<lparr>bytesUploaded :=
                                      bytesUploaded (fl s) + of_nat (length (data req))\<rparr>\<rparr>))
            | _ \<Rightarrow> None)
      else None)"
| "step U (SeeClosed w) s =
     (if w < length (workers s) \<and> snd (workers s ! w) = Idle \<and> closed s
      then Some (s\<lparr>workers := (workers s)[w := (fst (workers s ! w), Reporting)]\<rparr>)
      else None)"
| "step U (SendContract w) s =
     (case pc s of
        Collecting k \<Rightarrow>
          if 0 < k \<and> w < length (workers s) \<and> snd (workers s ! w) = Reporting
          then (let contract = fileContract U (fst (workers s ! w))
                in Some (s\<lparr>pc := Collecting (k - 1),
                           workers := (workers s)[w := (fst (workers s ! w), Done)],
                           fl := (fl s)\<lparr>contracts :=
                                    (contracts (fl s))(IP contract \<mapsto> contract)\<rparr>\<rparr>))
          else None
      | _ \<Rightarrow> None)"

text \<open>A schedule, run from \<open>s\<close>; \<open>None\<close> when one of its events is not enabled.\<close>

fun run :: "'h uploader \<Rightarrow> event list \<Rightarrow> 'h ustate \<Rightarrow> 'h ustate option" where
  "run U [] s = Some s"
| "run U (e # es) s = (case step U e s of None \<Rightarrow> None | Some s' \<Rightarrow> run U es s')"

text \<open>Lines 68-77: the state once every worker is spawned and blocked on \<^verbatim>\<open>reqChan\<close>.\<close>

definition spawned :: "file_rec \<Rightarrow> reader \<Rightarrow> 'h list \<Rightarrow> 'h ustate" where
  "spawned f r hosts =
     \<lparr>pc = Reading 0, rdr = r, closed = False, workers = map (\<lambda>h. (h, Idle)) hosts, fl = f\<rparr>"

text \<open>
  \<^verbatim>\<open>upload\<close> under a schedule: the error it returns and the state it leaves, or \<open>None\<close>
  when the schedule does not bring \<^verbatim>\<open>upload\<close> to a return.
\<close>

definition upload :: "'h uploader \<Rightarrow> event list \<Rightarrow> file_rec \<Rightarrow> reader \<Rightarrow> 'h list
    \<Rightarrow> (error option \<times> 'h ustate) option" where
  "upload U sched f r hosts =
     (case run U sched (spawned f r hosts) of
        None \<Rightarrow> None
      | Some s \<Rightarrow> (case pc s of Returned e \<Rightarrow> Some (e, s) | _ \<Rightarrow> None))"

subsection \<open>\<^verbatim>\<open>Upload\<close> and \<^verbatim>\<open>checkWalletBalance\<close>\<close>

text \<open>
  \<^verbatim>\<open>modules.FileUploadParams\<close>, as the source uses it. \<^verbatim>\<open>Duration\<close> is a
  \<^verbatim>\<open>types.BlockHeight\<close> (\<^verbatim>\<open>uint64\<close>); \<^verbatim>\<open>ErasureCode\<close> is an interface, \<open>None\<close> when
  \<^verbatim>\<open>nil\<close>.
\<close>

record FileUploadParams =
  Filename :: string
  Duration :: "64 word"
  Nickname :: string
  ErasureCode :: "erasureCoder option"
  PieceSize :: "64 word"

text \<open>\<^verbatim>\<open>os.FileInfo\<close>: \<^verbatim>\<open>Size()\<close> is an \<^verbatim>\<open>int64\<close>, \<^verbatim>\<open>Mode()\<close> a 32-bit \<^verbatim>\<open>os.FileMode\<close>.\<close>

record fileInfo =
  Size :: int
  Mode :: "32 word"

text \<open>
  A host descriptor of the host database (\<^verbatim>\<open>modules.HostSettings\<close>): the source reads
  its \<^verbatim>\<open>Price\<close>, a \<^verbatim>\<open>types.Currency\<close> (an unbounded natural number).
\<close>

record hostSettings =
  IPAddress :: string
  Price :: nat

text \<open>The renter: its file table \<^verbatim>\<open>r.files\<close>, and the table as \<^verbatim>\<open>r.save()\<close> last wrote it.\<close>

record renter =
  files :: "string \<rightharpoonup> file_rec"
  saved :: "string \<rightharpoonup> file_rec"

text \<open>
  Everything outside the source file that \<^verbatim>\<open>Upload\<close> calls, with a log of the calls that
  reach other machines or the disk:
  \<^item> \<open>osOpen\<close>, \<open>handleStat\<close>, \<open>osStat\<close>: \<^verbatim>\<open>os.Open\<close>, \<^verbatim>\<open>handle.Stat\<close> and \<^verbatim>\<open>os.Stat\<close> by file
    name; \<open>opened\<close>: the open handles with their read positions;
  \<^item> \<open>hostDB\<close>: the answer of \<^verbatim>\<open>hostDB.RandomHosts\<close> to the last of the requests made so
    far; \<open>requested\<close>: the sizes requested so far;
  \<^item> \<open>ConfirmedBalance\<close>: the siacoin balance of the wallet;
  \<^item> \<open>newHostUploader\<close>: session construction; \<open>contacted\<close>: the hosts it was called on;
    \<open>closedSessions\<close>: the sessions closed by the deferred \<^verbatim>\<open>host.Close()\<close>;
  \<^item> \<open>NewRSCode\<close>, \<open>GenerateTwofishKey\<close>, \<open>numChunks\<close>, \<open>saveFile\<close>: functions of the
    repository that are not in the source file.
\<close>

record 'h env =
  osOpen :: "string \<Rightarrow> error + reader"
  handleStat :: "string \<Rightarrow> error + fileInfo"
  osStat :: "string \<Rightarrow> error + fileInfo"
  opened :: "reader list"
  hostDB :: "int list \<Rightarrow> hostSettings list"
  requested :: "int list"
  ConfirmedBalance :: nat
  newHostUploader :: "hostSettings \<Rightarrow> 64 word \<Rightarrow> 64 word \<Rightarrow> byte list \<Rightarrow> error + 'h"
  contacted :: "hostSettings list"
  closedSessions :: "'h list"
  NewRSCode :: "int \<Rightarrow> int \<Rightarrow> erasureCoder"
  GenerateTwofishKey :: "byte list"
  numChunks :: "file_rec \<Rightarrow> 64 word"
  saveFile :: "file_rec \<Rightarrow> error option"

text \<open>Lines 16-18.\<close>

definition defaultDuration :: "64 word" where
  "defaultDuration = 6000"

definition defaultDataPieces :: int where
  "defaultDataPieces = 2"

definition defaultParityPieces :: int where
  "defaultParityPieces = 10"

text \<open>
  Lines 24-25, untyped constants. \<^verbatim>\<open>crypto.TwofishOverhead\<close> is declared outside the
  source file; it is the parameter \<open>ovh\<close>.
\<close>

definition defaultPieceSize :: "int \<Rightarrow> int" where
  "defaultPieceSize ovh = 2 ^ 22 - ovh"

definition smallPieceSize :: "int \<Rightarrow> int" where
  "smallPieceSize ovh = 2 ^ 16 - ovh"

text \<open>
  Go's \<^verbatim>\<open>int\<close> (64 bits): the product wraps around, the quotient truncates toward zero
  (the source divides by 2 only).
\<close>

definition int_mul :: "int \<Rightarrow> int \<Rightarrow> int" where
  "int_mul a b = (a * b + 2 ^ 63) mod 2 ^ 64 - 2 ^ 63"

definition int_quo :: "int \<Rightarrow> int \<Rightarrow> int" where
  "int_quo a b = sgn a * sgn b * (\<bar>a\<bar> div \<bar>b\<bar>)"

text \<open>
  \<^verbatim>\<open>filepath.Ext\<close> of Go's library: the suffix from the last dot of the last path element,
  empty without a dot. \<open>extFrom\<close> is its loop, walking the path backwards.
\<close>

fun extFrom :: "string \<Rightarrow> string \<Rightarrow> string" where
  "extFrom [] acc = []"
| "extFrom (c # cs) acc =
     (if c = CHR ''/'' then []
      else if c = CHR ''.'' then c # acc
      else extFrom cs (c # acc))"

definition Ext :: "string \<Rightarrow> string" where
  "Ext path = extFrom (rev path) []"

text \<open>\<^verbatim>\<open>r.hostDB.RandomHosts(n)\<close>.\<close>

definition RandomHosts :: "'h env \<Rightarrow> int \<Rightarrow> hostSettings list \<times> 'h env" where
  "RandomHosts w n = (hostDB w (requested w @ [n]), w\<lparr>requested := requested w @ [n]\<rparr>)"

text \<open>
  Lines 114-140. \<open>None\<close>: the call does not return, because \<^verbatim>\<open>up.ErasureCode\<close> is \<^verbatim>\<open>nil\<close>
  and line 123 calls a method on it. The currency operations are those of natural
  numbers; \<^verbatim>\<open>len(hosts)\<close> is not zero where line 131 divides.
\<close>

definition checkWalletBalance :: "FileUploadParams \<Rightarrow> 'h env \<Rightarrow> (error option \<times> 'h env) option" where
  "checkWalletBalance up w =
     (case osStat w (Filename up) of
        Inl err \<Rightarrow> Some (Some err, w)
      | Inr fileInfo \<Rightarrow>
          (case ErasureCode up of
             None \<Rightarrow> None
           | Some ec \<Rightarrow>
               (let curSize = unat (word_of_int (Size fileInfo) :: 64 word);
                    sampleSize = int_quo (int_mul (NumPieces ec) 3) 2
                in case RandomHosts w sampleSize of
                     (hosts, w') \<Rightarrow>
                       (let averagePrice = fold (\<lambda>host a. a + Price host) hosts 0
                        in if length hosts = 0 then Some (Some (ErrOther ''no hosts!''), w')
                           else (let averagePrice' = averagePrice div length hosts;
                                     estimatedCost = averagePrice' * unat (Duration up) * curSize;
                                     bufferedCost = estimatedCost * 2
                                 in if bufferedCost > ConfirmedBalance w'
                                    then Some (Some (ErrOther ''insufficient balance for upload''), w')
                                    else Some (None, w'))))))"

text \<open>
  Modelled from the spec: \<^verbatim>\<open>newFile\<close> is not in the source file. The spec's file record:
  identity, erasure-coding configuration, piece size, total size, a per-file key, an
  empty host-to-contract map and two progress counters starting at zero.
\<close>

definition newFile :: "byte list \<Rightarrow> string \<Rightarrow> erasureCoder \<Rightarrow> 64 word \<Rightarrow> 64 word \<Rightarrow> file_rec" where
  "newFile key nm code pieceSz fileSz =
     \<lparr>name = nm, size_f = fileSz, contracts = Map.empty, masterKey = key, erasureCode = code,
      pieceSize = pieceSz, mode = 0, bytesUploaded = 0, chunksUploaded = 0\<rparr>"

text \<open>Lines 179-192: the upload parameters with the defaults filled in.\<close>

definition fillDefaults :: "int \<Rightarrow> 'h env \<Rightarrow> fileInfo \<Rightarrow> FileUploadParams \<Rightarrow> FileUploadParams" where
  "fillDefaults ovh w fileInfo up =
     (let up1 = (if Duration up = 0 then up\<lparr>Duration := defaultDuration\<rparr> else up);
          up2 = (if ErasureCode up1 = None
                 then up1\<lparr>ErasureCode := Some (NewRSCode w defaultDataPieces defaultParityPieces)\<rparr>
                 else up1)
      in if PieceSize up2 = 0
         then (if Size fileInfo > defaultPieceSize ovh
               then up2\<lparr>PieceSize := word_of_int (defaultPieceSize ovh)\<rparr>
               else up2\<lparr>PieceSize := word_of_int (smallPieceSize ovh)\<rparr>)
         else up2)"

text \<open>
  Lines 207-214: the loop over the candidates; a candidate whose session cannot be
  constructed is skipped.
\<close>

fun connectHosts :: "'h env \<Rightarrow> hostSettings list \<Rightarrow> 64 word \<Rightarrow> 64 word \<Rightarrow> byte list \<Rightarrow> 'h list
    \<Rightarrow> 'h list \<times> 'h env" where
  "connectHosts w [] totalsize dur key hosts = (hosts, w)"
| "connectHosts w (host # rest) totalsize dur key hosts =
     (case newHostUploader w host totalsize dur key of
        Inl err \<Rightarrow> connectHosts (w\<lparr>contacted := contacted w @ [host]\<rparr>) rest totalsize dur key hosts
      | Inr h \<Rightarrow>
          connectHosts (w\<lparr>contacted := contacted w @ [host]\<rparr>) rest totalsize dur key (hosts @ [h]))"

text \<open>The deferred \<^verbatim>\<open>host.Close()\<close> calls of line 212, run last-in first-out at a return.\<close>

definition closeAll :: "'h list \<Rightarrow> 'h env \<Rightarrow> 'h env" where
  "closeAll hosts w = w\<lparr>closedSessions := closedSessions w @ rev hosts\<rparr>"

text \<open>\<^verbatim>\<open>r.save()\<close>.\<close>

definition save :: "renter \<Rightarrow> renter" where
  "save r = r\<lparr>saved := files r\<rparr>"

text \<open>
  Lines 219-243, once the sessions are there. The table holds a pointer to the file
  record, so it shows what \<^verbatim>\<open>upload\<close> did to the record.
\<close>

definition transfer :: "'h uploader \<Rightarrow> event list \<Rightarrow> string \<Rightarrow> file_rec \<Rightarrow> reader \<Rightarrow> 'h list
    \<Rightarrow> renter \<times> 'h env \<Rightarrow> (error option \<times> renter \<times> 'h env) option" where
  "transfer U sched nick f handle hosts rw =
     (case rw of
        (r, w) \<Rightarrow>
          (let r1 = save (r\<lparr>files := (files r)(nick \<mapsto> f)\<rparr>)
           in case upload U sched f handle hosts of
                None \<Rightarrow> None
              | Some (err, s) \<Rightarrow>
                  (let w1 = closeAll (map fst (workers s)) (w\<lparr>opened := butlast (opened w) @ [rdr s]\<rparr>)
                   in if err \<noteq> None
                      then Some (Some (ErrOther ''failed to upload any file pieces''),
                                 save (r1\<lparr>files := (files r1)(nick := None)\<rparr>), w1)
                      else (let r2 = r1\<lparr>files := (files r1)(nick \<mapsto> fl s)\<rparr>
                            in case saveFile w (fl s) of
                                 Some err' \<Rightarrow> Some (Some err', r2, w1)
                               | None \<Rightarrow> Some (None, r2, w1)))))"

text \<open>
  Lines 200-217, then \<open>transfer\<close>: the file record is created, the candidates are
  asked for and connected to, and the number of sessions is checked.
\<close>

definition connectAndTransfer :: "'h uploader \<Rightarrow> event list \<Rightarrow> FileUploadParams \<Rightarrow> erasureCoder
    \<Rightarrow> fileInfo \<Rightarrow> reader \<Rightarrow> renter \<times> 'h env \<Rightarrow> (error option \<times> renter \<times> 'h env) option" where
  "connectAndTransfer U sched up ec fileInfo handle rw =
     (case rw of
        (r, w2) \<Rightarrow>
          (let f = (newFile (GenerateTwofishKey w2) (Nickname up) ec (PieceSize up)
                      (word_of_int (Size fileInfo)))\<lparr>mode := Mode fileInfo\<rparr>;
               totalsize = PieceSize up * word_of_int (NumPieces ec) * numChunks w2 f
           in case RandomHosts w2 (int_quo (int_mul (NumPieces ec) 3) 2) of
                (candidates, w3) \<Rightarrow>
                  (case connectHosts w3 candidates totalsize (Duration up) (masterKey f) [] of
                     (hosts, w4) \<Rightarrow>
                       if int (length hosts) < MinPieces ec
                       then Some (Some (ErrOther ''not enough hosts to support upload''), r,
                                  closeAll hosts w4)
                       else transfer U sched (Nickname up) f handle hosts (r, w4))))"

text \<open>
  Lines 144-198, then \<open>connectAndTransfer\<close>. \<open>None\<close>: \<^verbatim>\<open>Upload\<close> does not return under
  the schedule. After line 185 \<^verbatim>\<open>up.ErasureCode\<close> is not \<^verbatim>\<open>nil\<close>.
\<close>

definition Upload :: "int \<Rightarrow> 'h uploader \<Rightarrow> event list \<Rightarrow> FileUploadParams \<Rightarrow> renter \<times> 'h env
    \<Rightarrow> (error option \<times> renter \<times> 'h env) option" where
  "Upload ovh U sched up0 rw =
     (case rw of
        (r, w0) \<Rightarrow>
          if Ext (Filename up0) \<noteq> Ext (Nickname up0)
          then Some (Some (ErrOther ''nickname and file name must have the same extension''), r, w0)
          else
            (case osOpen w0 (Filename up0) of
               Inl err \<Rightarrow> Some (Some err, r, w0)
             | Inr handle \<Rightarrow>
                 (let w1 = w0\<lparr>opened := opened w0 @ [handle]\<rparr>
                  in if files r (Nickname up0) \<noteq> None
                     then Some (Some (ErrOther ''file with that nickname already exists''), r, w1)
                     else
                       (case handleStat w1 (Filename up0) of
                          Inl err \<Rightarrow> Some (Some err, r, w1)
                        | Inr fileInfo \<Rightarrow>
                            if Size fileInfo > 5 * 1024 * 1024 * 1024
                            then Some (Some (ErrOther ''cannot upload a file larger than 5 GB''), r, w1)
                            else
                              (let up = fillDefaults ovh w1 fileInfo up0
                               in case checkWalletBalance up w1 of
                                    None \<Rightarrow> None
                                  | Some (Some err, w2) \<Rightarrow> Some (Some err, r, w2)
                                  | Some (None, w2) \<Rightarrow>
                                      (case ErasureCode up of
                                         None \<Rightarrow> None
                                       | Some ec \<Rightarrow>
                                           connectAndTransfer U sched up ec fileInfo handle
                                             (r, w2)))))))"

text \<open>
  The sessions that line 208 can construct for the candidates, in their order.
\<close>

definition constructed :: "'h env \<Rightarrow> hostSettings list \<Rightarrow> 64 word \<Rightarrow> 64 word \<Rightarrow> byte list \<Rightarrow> 'h list" where
  "constructed w candidates totalsize dur key =
     List.map_filter (\<lambda>c. case newHostUploader w c totalsize dur key of
                              Inl e \<Rightarrow> None | Inr h \<Rightarrow> Some h) candidates"

subsection \<open>Observations on runs\<close>

text \<open>
  The pieces whose \<^verbatim>\<open>addPiece\<close> returned \<^verbatim>\<open>nil\<close> in one event, and along a run.
\<close>

definition accepted :: "'h uploader \<Rightarrow> event \<Rightarrow> 'h ustate \<Rightarrow> uploadPiece list" where
  "accepted U e s =
     (case e of
        AddPiece w \<Rightarrow>
          (case snd (workers s ! w) of
             Busy req \<Rightarrow> if fst (addPiece U (fst (workers s ! w)) req) = None then [req] else []
           | _ \<Rightarrow> [])
      | _ \<Rightarrow> [])"

fun delivered :: "'h uploader \<Rightarrow> event list \<Rightarrow> 'h ustate \<Rightarrow> uploadPiece list" where
  "delivered U [] s = []"
| "delivered U (e # es) s =
     (case step U e s of None \<Rightarrow> [] | Some s' \<Rightarrow> accepted U e s @ delivered U es s')"

text \<open>
  The invariant of a run: the identities of the sessions stay \<open>ids\<close>; the keys of the
  contract map are the identities of the workers that have returned; \<^verbatim>\<open>upload\<close> has as many
  contracts left to collect as workers have not returned.
\<close>

definition doneSet :: "'h ustate \<Rightarrow> nat set" where
  "doneSet s = {w. w < length (workers s) \<and> snd (workers s ! w) = Done}"

definition hostIDs :: "'h uploader \<Rightarrow> 'h ustate \<Rightarrow> string list" where
  "hostIDs U s = map (\<lambda>x. IP (fileContract U (fst x))) (workers s)"

definition collect_inv :: "'h ustate \<Rightarrow> bool" where
  "collect_inv s =
     (case pc s of
        Collecting k \<Rightarrow> k + card (doneSet s) = length (workers s)
      | Returned None \<Rightarrow> doneSet s = {..<length (workers s)}
      | _ \<Rightarrow> doneSet s = {})"

definition upload_inv :: "'h uploader \<Rightarrow> string list \<Rightarrow> 'h ustate \<Rightarrow> bool" where
  "upload_inv U ids s \<longleftrightarrow>
     hostIDs U s = ids \<and> dom (contracts (fl s)) = (\<lambda>w. ids ! w) ` doneSet s \<and> collect_inv s"

text \<open>While \<^verbatim>\<open>upload\<close> collects contracts, \<^verbatim>\<open>reqChan\<close> is closed.\<close>

definition closed_inv :: "'h ustate \<Rightarrow> bool" where
  "closed_inv s \<longleftrightarrow> (\<forall>k. pc s = Collecting k \<longrightarrow> closed s)"

text \<open>How many contracts worker \<open>w\<close> has handed over in state \<open>s\<close>: one once it has returned.\<close>

definition sent :: "'h ustate \<Rightarrow> nat \<Rightarrow> nat" where
  "sent s w = (if snd (workers s ! w) = Done then 1 else 0)"

subsection \<open>Concrete sessions for runs\<close>

text \<open>
  An in-memory session, as the interface's comment foresees for testing: it stores the
  indices of the pieces it accepts and refuses every piece once \<open>quota\<close> are stored. The
  erasure coder of the runs makes two copies of a chunk.
\<close>

record testHost =
  hostIP :: string
  stored :: "(64 word \<times> 64 word) list"
  quota :: nat

definition testUploader :: "testHost uploader" where
  "testUploader =
     \<lparr>addPiece = (\<lambda>h p. if length (stored h) < quota h
                          then (None, h\<lparr>stored := stored h @ [(chunkIndex p, pieceIndex p)]\<rparr>)
                          else (Some (ErrOther ''host refused''), h)),
      fileContract = (\<lambda>h. \<lparr>IP = hostIP h, Pieces = stored h\<rparr>)\<rparr>"

definition testCode :: erasureCoder where
  "testCode = \<lparr>NumPieces = 2, MinPieces = 1, Encode = (\<lambda>chunk. Inr [chunk, chunk])\<rparr>"

definition testFile :: file_rec where
  "testFile = \<lparr>name = ''a.txt'', size_f = 3, contracts = Map.empty, masterKey = [],
     erasureCode = testCode, pieceSize = 2, mode = 0, bytesUploaded = 0, chunksUploaded = 0\<rparr>"

definition diskA :: reader where
  "diskA = \<lparr>pending = [7, 8], failure = None\<rparr>"

definition hostA :: testHost where
  "hostA = \<lparr>hostIP = ''10.0.0.1'', stored = [], quota = 0\<rparr>"

definition hostB :: testHost where
  "hostB = \<lparr>hostIP = ''10.0.0.2'', stored = [], quota = 5\<rparr>"

definition schedAB :: "event list" where
  "schedAB = [MainStep, Recv 0, AddPiece 0, Recv 1, AddPiece 1, MainStep, MainStep,
              SeeClosed 1, SendContract 0, SendContract 1, MainStep]"

definition finalAB :: "testHost ustate" where
  "finalAB =
     \<lparr>pc = Returned None, rdr = \<lparr>pending = [], failure = None\<rparr>, closed = True,
      workers = [(hostA, Done), (hostB\<lparr>stored := [(0, 1)]\<rparr>, Done)],
      fl = testFile\<lparr>contracts := [''10.0.0.1'' \<mapsto> \<lparr>IP = ''10.0.0.1'', Pieces = []\<rparr>,
                                   ''10.0.0.2'' \<mapsto> \<lparr>IP = ''10.0.0.2'', Pieces = [(0, 1)]\<rparr>],
                    bytesUploaded := 2, chunksUploaded := 1\<rparr>\<rparr>"

text \<open>
  Two states on the way of \<open>schedAB\<close>: worker 0 holding the first piece, which its session
  refuses; and \<^verbatim>\<open>upload\<close> collecting, with worker 0 at its send and worker 1 still in its
  loop.
\<close>

definition schedABmid :: "event list" where
  "schedABmid = [MainStep, Recv 0, AddPiece 0, Recv 1, AddPiece 1, MainStep, MainStep]"

definition midAB :: "testHost ustate" where
  "midAB =
     \<lparr>pc = Collecting 2, rdr = \<lparr>pending = [], failure = None\<rparr>, closed = True,
      workers = [(hostA, Reporting), (hostB\<lparr>stored := [(0, 1)]\<rparr>, Idle)],
      fl = testFile\<lparr>bytesUploaded := 2, chunksUploaded := 1\<rparr>\<rparr>"

definition busyAB :: "testHost ustate" where
  "busyAB =
     \<lparr>pc = Sending 0 [ [7, 8], [7, 8] ] 1, rdr = \<lparr>pending = [], failure = None\<rparr>, closed = False,
      workers = [(hostA, Busy \<lparr>data = [7, 8], chunkIndex = 0, pieceIndex = 0\<rparr>), (hostB, Idle)],
      fl = testFile\<rparr>"

text \<open>A state in which worker 0 holds a piece of two bytes, with session \<open>h\<close>.\<close>

definition holding :: "testHost \<Rightarrow> testHost ustate" where
  "holding h =
     \<lparr>pc = Sending 0 [ [7, 8], [7, 8] ] 1, rdr = \<lparr>pending = [], failure = None\<rparr>, closed = False,
      workers = [(h, Busy \<lparr>data = [7, 8], chunkIndex = 0, pieceIndex = 0\<rparr>)], fl = testFile\<rparr>"

definition hostC :: testHost where
  "hostC = \<lparr>hostIP = ''10.0.0.3'', stored = [], quota = 5\<rparr>"

definition schedBC :: "event list" where
  "schedBC = [MainStep, Recv 0, AddPiece 0, Recv 1, AddPiece 1, MainStep, MainStep,
              SeeClosed 0, SeeClosed 1, SendContract 1, SendContract 0, MainStep]"

definition finalBC :: "testHost ustate" where
  "finalBC =
     \<lparr>pc = Returned None, rdr = \<lparr>pending = [], failure = None\<rparr>, closed = True,
      workers = [(hostB\<lparr>stored := [(0, 0)]\<rparr>, Done), (hostC\<lparr>stored := [(0, 1)]\<rparr>, Done)],
      fl = testFile\<lparr>contracts := [''10.0.0.3'' \<mapsto> \<lparr>IP = ''10.0.0.3'', Pieces = [(0, 1)]\<rparr>,
                                   ''10.0.0.2'' \<mapsto> \<lparr>IP = ''10.0.0.2'', Pieces = [(0, 0)]\<rparr>],
                    bytesUploaded := 4, chunksUploaded := 1\<rparr>\<rparr>"

text \<open>A stream whose first read fails, and the state \<^verbatim>\<open>upload\<close> leaves on it.\<close>

definition diskBad :: reader where
  "diskBad = \<lparr>pending = [], failure = Some (ErrOther ''read error'')\<rparr>"

definition abortedB :: "testHost ustate" where
  "abortedB =
     \<lparr>pc = Returned (Some (ErrOther ''read error'')), rdr = diskBad, closed = False,
      workers = [(hostB, Idle)], fl = testFile\<rparr>"

subsection \<open>A concrete environment\<close>

text \<open>
  A disk with the two-byte file \<^verbatim>\<open>a.txt\<close>, a host database of three hosts of which the
  third cannot be reached, and variations of it.
\<close>

definition hostD :: hostSettings where
  "hostD = \<lparr>IPAddress = ''10.0.0.4'', Price = 3\<rparr>"

definition testCandidates :: "hostSettings list" where
  "testCandidates = [\<lparr>IPAddress = ''10.0.0.2'', Price = 1\<rparr>, \<lparr>IPAddress = ''10.0.0.3'', Price = 2\<rparr>, hostD]"

definition testEnv :: "testHost env" where
  "testEnv =
     \<lparr>osOpen = (\<lambda>fn. if fn = ''a.txt'' then Inr diskA else Inl (ErrOther ''open: no such file'')),
      handleStat = (\<lambda>fn. Inr \<lparr>Size = 2, Mode = 420\<rparr>),
      osStat = (\<lambda>fn. if fn = ''a.txt'' then Inr \<lparr>Size = 2, Mode = 420\<rparr>
                      else Inl (ErrOther ''stat: no such file'')),
      opened = [],
      hostDB = (\<lambda>reqs. take (nat (last reqs)) testCandidates),
      requested = [],
      ConfirmedBalance = 100000,
      newHostUploader = (\<lambda>host totalsize dur key.
         if host = hostD then Inl (ErrOther ''host unreachable'')
         else Inr \<lparr>hostIP = IPAddress host, stored = [], quota = 5\<rparr>),
      contacted = [],
      closedSessions = [],
      NewRSCode = (\<lambda>d p. testCode),
      GenerateTwofishKey = [],
      numChunks = (\<lambda>f. 1),
      saveFile = (\<lambda>f. None)\<rparr>"

definition testParams :: FileUploadParams where
  "testParams = \<lparr>Filename = ''a.txt'', Duration = 0, Nickname = ''b.txt'', ErasureCode = None,
                  PieceSize = 2\<rparr>"

definition emptyRenter :: renter where
  "emptyRenter = \<lparr>files = Map.empty, saved = Map.empty\<rparr>"

definition strictParams :: FileUploadParams where
  "strictParams = testParams\<lparr>ErasureCode := Some (testCode\<lparr>MinPieces := 3\<rparr>)\<rparr>"

definition oddParams :: FileUploadParams where
  "oddParams = testParams\<lparr>ErasureCode := Some (testCode\<lparr>NumPieces := 3\<rparr>)\<rparr>"

definition createdFile :: file_rec where
  "createdFile =
     \<lparr>name = ''b.txt'', size_f = 2, contracts = Map.empty, masterKey = [], erasureCode = testCode,
      pieceSize = 2, mode = 420, bytesUploaded = 0, chunksUploaded = 0\<rparr>"

definition renterDone :: renter where
  "renterDone =
     \<lparr>files = [''b.txt'' \<mapsto>
         createdFile\<lparr>contracts := [''10.0.0.3'' \<mapsto> \<lparr>IP = ''10.0.0.3'', Pieces = [(0, 1)]\<rparr>,
                                    ''10.0.0.2'' \<mapsto> \<lparr>IP = ''10.0.0.2'', Pieces = [(0, 0)]\<rparr>],
                     bytesUploaded := 4, chunksUploaded := 1\<rparr>],
      saved = [''b.txt'' \<mapsto> createdFile]\<rparr>"

definition envDone :: "testHost env" where
  "envDone = testEnv\<lparr>opened := [\<lparr>pending = [], failure = None\<rparr>], requested := [3, 3],
                      contacted := testCandidates,
                      closedSessions := [hostC\<lparr>stored := [(0, 1)]\<rparr>, hostB\<lparr>stored := [(0, 0)]\<rparr>]\<rparr>"

definition envStrict :: "testHost env" where
  "envStrict = testEnv\<lparr>opened := [diskA], requested := [3, 3], contacted := testCandidates,
                        closedSessions := [hostC, hostB]\<rparr>"

definition bigEnv :: "testHost env" where
  "bigEnv = testEnv\<lparr>handleStat := (\<lambda>fn. Inr \<lparr>Size = 6 * 1024 * 1024 * 1024, Mode = 420\<rparr>)\<rparr>"

definition poorEnv :: "testHost env" where
  "poorEnv = testEnv\<lparr>ConfirmedBalance := 7\<rparr>"

definition freeEnv :: "testHost env" where
  "freeEnv = testEnv\<lparr>hostDB := (\<lambda>reqs. [\<lparr>IPAddress = ''10.0.0.2'', Price = 0\<rparr>])\<rparr>"

definition missingParams :: FileUploadParams where
  "missingParams = testParams\<lparr>Filename := ''gone.txt'', ErasureCode := Some testCode\<rparr>"

section \<open>Properties of \<^verbatim>\<open>upload\<close> and \<^verbatim>\<open>uploadWorker\<close>\<close>

lemmas step_splits =
  upload_pc.splits option.splits if_splits worker_pc.splits prod.splits sum.splits

lemma mainStep_workers: "mainStep s = Some s' \<Longrightarrow> workers s' = workers s"
  by (auto simp: mainStep_def split: step_splits)

lemma step_length: "step U a s = Some s' \<Longrightarrow> length (workers s') = length (workers s)"
  by (cases a) (auto simp: Let_def dest: mainStep_workers split: step_splits)

lemma run_length: "run U es s = Some s' \<Longrightarrow> length (workers s') = length (workers s)"
proof (induction es arbitrary: s)
  case Nil
  then show ?case by simp
next
  case (Cons a es)
  from Cons.prems obtain s1 where s1: "step U a s = Some s1" and r: "run U es s1 = Some s'"
    by (auto split: option.splits)
  from step_length[OF s1] Cons.IH[OF r] show ?case by simp
qed

lemma step_left_loop:
  "step U a s = Some s' \<Longrightarrow> w < length (workers s) \<Longrightarrow>
   snd (workers s ! w) = Reporting \<or> snd (workers s ! w) = Done \<Longrightarrow>
     a \<noteq> Recv w \<and> a \<noteq> AddPiece w \<and> a \<noteq> SeeClosed w
     \<and> fst (workers s' ! w) = fst (workers s ! w)
     \<and> (snd (workers s' ! w) = Reporting \<or> snd (workers s' ! w) = Done)"
  by (cases a) (auto simp: Let_def nth_list_update dest: mainStep_workers split: step_splits)

lemma run_left_loop:
  "run U es s = Some s' \<Longrightarrow> w < length (workers s) \<Longrightarrow>
   snd (workers s ! w) = Reporting \<or> snd (workers s ! w) = Done \<Longrightarrow>
     Recv w \<notin> set es \<and> AddPiece w \<notin> set es \<and> SeeClosed w \<notin> set es
     \<and> fst (workers s' ! w) = fst (workers s ! w)
     \<and> (snd (workers s' ! w) = Reporting \<or> snd (workers s' ! w) = Done)"
proof (induction es arbitrary: s)
  case Nil
  then show ?case by simp
next
  case (Cons a es)
  from Cons.prems(1) obtain s1 where s1: "step U a s = Some s1" and r: "run U es s1 = Some s'"
    by (auto split: option.splits)
  note st = step_left_loop[OF s1 Cons.prems(2,3)]
  have len: "w < length (workers s1)" using step_length[OF s1] Cons.prems(2) by simp
  from st have "snd (workers s1 ! w) = Reporting \<or> snd (workers s1 ! w) = Done" by simp
  from Cons.IH[OF r len this] st show ?case by auto
qed

text \<open>
  C4. When a worker holding a piece runs \<^verbatim>\<open>addPiece\<close>: on success the counter
  \<^verbatim>\<open>bytesUploaded\<close> grows by exactly the length of the piece's data and the worker waits
  for the next piece; on failure the file record (so the counter) is unchanged, and in
  every continuation the worker receives no further piece, calls \<^verbatim>\<open>addPiece\<close> no more (no
  retry), and only reports its contract.
\<close>

theorem addPiece_accounting:
  assumes "w < length (workers s)" and "workers s ! w = (h, Busy req)"
    and "addPiece U h req = (res, h')"
  shows "(res = None \<longrightarrow>
            step U (AddPiece w) s =
              Some (s\<lparr>workers := (workers s)[w := (h', Idle)],
                      fl := (fl s)\<lparr>bytesUploaded :=
                               bytesUploaded (fl s) + of_nat (length (data req))\<rparr>\<rparr>))
       \<and> (res \<noteq> None \<longrightarrow>
            step U (AddPiece w) s = Some (s\<lparr>workers := (workers s)[w := (h', Reporting)]\<rparr>)
            \<and> (\<forall>es s'. run U es (s\<lparr>workers := (workers s)[w := (h', Reporting)]\<rparr>) = Some s' \<longrightarrow>
                   Recv w \<notin> set es \<and> AddPiece w \<notin> set es \<and> fst (workers s' ! w) = h'
                   \<and> (snd (workers s' ! w) = Reporting \<or> snd (workers s' ! w) = Done)))"
proof (intro conjI impI)
  assume "res = None"
  then show "step U (AddPiece w) s =
              Some (s\<lparr>workers := (workers s)[w := (h', Idle)],
                      fl := (fl s)\<lparr>bytesUploaded :=
                               bytesUploaded (fl s) + of_nat (length (data req))\<rparr>\<rparr>)"
    using assms by simp
next
  assume "res \<noteq> None"
  then show "step U (AddPiece w) s = Some (s\<lparr>workers := (workers s)[w := (h', Reporting)]\<rparr>)"
    using assms by auto
next
  show "\<forall>es s'. run U es (s\<lparr>workers := (workers s)[w := (h', Reporting)]\<rparr>) = Some s' \<longrightarrow>
                   Recv w \<notin> set es \<and> AddPiece w \<notin> set es \<and> fst (workers s' ! w) = h'
                   \<and> (snd (workers s' ! w) = Reporting \<or> snd (workers s' ! w) = Done)"
  proof (intro allI impI)
    fix es s'
    assume r: "run U es (s\<lparr>workers := (workers s)[w := (h', Reporting)]\<rparr>) = Some s'"
    show "Recv w \<notin> set es \<and> AddPiece w \<notin> set es \<and> fst (workers s' ! w) = h'
                   \<and> (snd (workers s' ! w) = Reporting \<or> snd (workers s' ! w) = Done)"
      using run_left_loop[OF r, of w] assms(1) by simp
  qed
qed

lemma step_sent:
  "step U a s = Some s' \<Longrightarrow> w < length (workers s) \<Longrightarrow>
     (if a = SendContract w then 1 else 0) + sent s w = sent s' w"
  by (cases a) (auto simp: sent_def Let_def nth_list_update dest: mainStep_workers split: step_splits)

lemma run_sent:
  "run U es s = Some s' \<Longrightarrow> w < length (workers s) \<Longrightarrow>
     count_list es (SendContract w) + sent s w = sent s' w"
proof (induction es arbitrary: s)
  case Nil
  then show ?case by simp
next
  case (Cons a es)
  from Cons.prems(1) obtain s1 where s1: "step U a s = Some s1" and r: "run U es s1 = Some s'"
    by (auto split: option.splits)
  have len: "w < length (workers s1)" using step_length[OF s1] Cons.prems(2) by simp
  from step_sent[OF s1 Cons.prems(2)] Cons.IH[OF r len] show ?case by (auto split: if_splits)
qed

lemma step_returned:
  "step U a s = Some s' \<Longrightarrow> pc s = Returned e \<Longrightarrow>
     pc s' = Returned e \<and> closed s' = closed s \<and> rdr s' = rdr s
     \<and> contracts (fl s') = contracts (fl s) \<and> a \<noteq> MainStep
     \<and> (\<forall>w. a \<noteq> Recv w \<and> a \<noteq> SendContract w)"
  by (cases a) (auto simp: mainStep_def split: option.splits if_splits worker_pc.splits prod.splits)

lemma returned_stays:
  "run U es s = Some s' \<Longrightarrow> pc s = Returned e \<Longrightarrow>
     pc s' = Returned e \<and> closed s' = closed s \<and> rdr s' = rdr s
     \<and> contracts (fl s') = contracts (fl s) \<and> MainStep \<notin> set es
     \<and> (\<forall>w. Recv w \<notin> set es \<and> SendContract w \<notin> set es)"
proof (induction es arbitrary: s)
  case Nil
  then show ?case by simp
next
  case (Cons a es)
  from Cons.prems(1) obtain s1 where s1: "step U a s = Some s1" and r: "run U es s1 = Some s'"
    by (auto split: option.splits)
  from step_returned[OF s1 Cons.prems(2)] Cons.IH[OF r] show ?case
    by auto
qed

text \<open>
  C5. At the head of the chunk loop: a read of zero bytes at a clean end of stream closes
  \<^verbatim>\<open>reqChan\<close> and goes on to collect the contracts, with no error; a partial read at the
  end of the stream is encoded (the buffer zero-filled) and dispatched like any chunk; any
  other read error makes \<^verbatim>\<open>upload\<close> return that error, after which no piece is ever
  dispatched.
\<close>

theorem upload_stream_cases:
  assumes "pc s = Reading i" and "n = unat (chunkSize (fl s))"
  shows "(pending (rdr s) = [] \<and> 0 < n \<and> failure (rdr s) = None \<longrightarrow>
            mainStep s = Some (s\<lparr>pc := Collecting (length (workers s)),
                                 rdr := (rdr s)\<lparr>pending := []\<rparr>, closed := True\<rparr>))
       \<and> (pending (rdr s) \<noteq> [] \<and> length (pending (rdr s)) < n \<and> failure (rdr s) = None \<longrightarrow>
            mainStep s =
              (case Encode (erasureCode (fl s))
                      (pending (rdr s) @ replicate (n - length (pending (rdr s))) 0) of
                 Inl e \<Rightarrow> Some (s\<lparr>pc := Returned (Some e), rdr := (rdr s)\<lparr>pending := []\<rparr>\<rparr>)
               | Inr pieces \<Rightarrow> Some (s\<lparr>pc := Sending i pieces 0, rdr := (rdr s)\<lparr>pending := []\<rparr>\<rparr>)))
       \<and> (length (pending (rdr s)) < n \<and> failure (rdr s) = Some e \<and> e \<noteq> EOF \<and> e \<noteq> ErrUnexpectedEOF \<longrightarrow>
            mainStep s = Some (s\<lparr>pc := Returned (Some e), rdr := (rdr s)\<lparr>pending := []\<rparr>\<rparr>)
            \<and> (\<forall>es s'. run U es (s\<lparr>pc := Returned (Some e), rdr := (rdr s)\<lparr>pending := []\<rparr>\<rparr>) = Some s'
                 \<longrightarrow> pc s' = Returned (Some e) \<and> (\<forall>w. Recv w \<notin> set es)))"
proof (intro conjI impI allI)
  assume "pending (rdr s) = [] \<and> 0 < n \<and> failure (rdr s) = None"
  then show "mainStep s = Some (s\<lparr>pc := Collecting (length (workers s)),
                                 rdr := (rdr s)\<lparr>pending := []\<rparr>, closed := True\<rparr>)"
    using assms by (simp add: mainStep_def ReadFull_def)
next
  assume "pending (rdr s) \<noteq> [] \<and> length (pending (rdr s)) < n \<and> failure (rdr s) = None"
  then show "mainStep s =
              (case Encode (erasureCode (fl s))
                      (pending (rdr s) @ replicate (n - length (pending (rdr s))) 0) of
                 Inl e \<Rightarrow> Some (s\<lparr>pc := Returned (Some e), rdr := (rdr s)\<lparr>pending := []\<rparr>\<rparr>)
               | Inr pieces \<Rightarrow> Some (s\<lparr>pc := Sending i pieces 0, rdr := (rdr s)\<lparr>pending := []\<rparr>\<rparr>))"
    using assms by (simp add: mainStep_def ReadFull_def split: sum.splits)
next
  assume a: "length (pending (rdr s)) < n \<and> failure (rdr s) = Some e \<and> e \<noteq> EOF \<and> e \<noteq> ErrUnexpectedEOF"
  then show "mainStep s = Some (s\<lparr>pc := Returned (Some e), rdr := (rdr s)\<lparr>pending := []\<rparr>\<rparr>)"
    using assms by (cases e) (simp_all add: mainStep_def ReadFull_def)
next
  fix es s'
  assume "run U es (s\<lparr>pc := Returned (Some e), rdr := (rdr s)\<lparr>pending := []\<rparr>\<rparr>) = Some s'"
  from returned_stays[OF this, of "Some e"]
  show "pc s' = Returned (Some e)" by simp
next
  fix es s' w
  assume "run U es (s\<lparr>pc := Returned (Some e), rdr := (rdr s)\<lparr>pending := []\<rparr>\<rparr>) = Some s'"
  from returned_stays[OF this, of "Some e"]
  show "Recv w \<notin> set es" by simp
qed

lemma run_schedAB:
  "run testUploader schedAB (spawned testFile diskA [hostA, hostB]) = Some finalAB"
  by (simp add: schedAB_def finalAB_def spawned_def mainStep_def ReadFull_def chunkSize_def
      testFile_def testCode_def diskA_def hostA_def hostB_def testUploader_def)

theorem addPiece_accounting_witness:
  "step testUploader (AddPiece 0) (holding hostB) =
     Some ((holding hostB)\<lparr>workers := [(hostB\<lparr>stored := [(0, 0)]\<rparr>, Idle)],
                           fl := testFile\<lparr>bytesUploaded := 2\<rparr>\<rparr>)
   \<and> step testUploader (AddPiece 0) (holding hostA) =
     Some ((holding hostA)\<lparr>workers := [(hostA, Reporting)]\<rparr>)"
proof -
  have len: "0 < length (workers (holding h))" for h by (simp add: holding_def)
  have w: "workers (holding h) ! 0 = (h, Busy \<lparr>data = [7, 8], chunkIndex = 0, pieceIndex = 0\<rparr>)" for h
    by (simp add: holding_def)
  have okB: "addPiece testUploader hostB \<lparr>data = [7, 8], chunkIndex = 0, pieceIndex = 0\<rparr>
      = (None, hostB\<lparr>stored := [(0, 0)]\<rparr>)"
    by (simp add: testUploader_def hostB_def)
  have koA: "addPiece testUploader hostA \<lparr>data = [7, 8], chunkIndex = 0, pieceIndex = 0\<rparr>
      = (Some (ErrOther ''host refused''), hostA)"
    by (simp add: testUploader_def hostA_def)
  from addPiece_accounting[OF len w okB] addPiece_accounting[OF len w koA]
  show ?thesis by (simp add: holding_def testFile_def)
qed

theorem upload_stream_cases_witness:
  "mainStep (spawned testFile \<lparr>pending = [], failure = None\<rparr> [hostB]) =
     Some ((spawned testFile \<lparr>pending = [], failure = None\<rparr> [hostB])
             \<lparr>pc := Collecting 1, closed := True\<rparr>)
   \<and> mainStep (spawned testFile \<lparr>pending = [7], failure = None\<rparr> [hostB]) =
     Some ((spawned testFile \<lparr>pending = [7], failure = None\<rparr> [hostB])
             \<lparr>pc := Sending 0 [ [7, 0], [7, 0] ] 0, rdr := \<lparr>pending = [], failure = None\<rparr>\<rparr>)
   \<and> mainStep (spawned testFile \<lparr>pending = [7], failure = Some (ErrOther ''read error'')\<rparr> [hostB]) =
     Some ((spawned testFile \<lparr>pending = [7], failure = Some (ErrOther ''read error'')\<rparr> [hostB])
             \<lparr>pc := Returned (Some (ErrOther ''read error'')),
              rdr := \<lparr>pending = [], failure = Some (ErrOther ''read error'')\<rparr>\<rparr>)"
proof -
  have p: "pc (spawned testFile r [hostB]) = Reading 0" for r by (simp add: spawned_def)
  have n: "2 = unat (chunkSize (fl (spawned testFile r [hostB])))" for r
    by (simp add: spawned_def chunkSize_def testFile_def testCode_def)
  from upload_stream_cases[OF p n, of "\<lparr>pending = [], failure = None\<rparr>"]
       upload_stream_cases[OF p n, of "\<lparr>pending = [7], failure = None\<rparr>"]
       upload_stream_cases[OF p n, of "\<lparr>pending = [7], failure = Some (ErrOther ''read error'')\<rparr>"
          "ErrOther ''read error''" testUploader]
  show ?thesis by (simp add: spawned_def testFile_def testCode_def)
qed

lemma step_bytes:
  "step U a s = Some s' \<Longrightarrow>
     bytesUploaded (fl s') =
       bytesUploaded (fl s) + of_nat (sum_list (map (\<lambda>p. length (data p)) (accepted U a s)))"
  by (cases a) (auto simp: accepted_def mainStep_def Let_def split: step_splits)

lemma run_bytes:
  "run U es s = Some s' \<Longrightarrow>
     bytesUploaded (fl s') =
       bytesUploaded (fl s) + of_nat (sum_list (map (\<lambda>p. length (data p)) (delivered U es s)))"
proof (induction es arbitrary: s)
  case Nil
  then show ?case by simp
next
  case (Cons a es)
  from Cons.prems obtain s1 where s1: "step U a s = Some s1" and r: "run U es s1 = Some s'"
    by (auto split: option.splits)
  from step_bytes[OF s1] Cons.IH[OF r] s1 show ?case by (simp add: add.assoc)
qed

lemma doneSet_bound: "doneSet s \<subseteq> {..<length (workers s)}"
  by (auto simp: doneSet_def)

lemma doneSet_finite: "finite (doneSet s)"
  by (rule finite_subset[OF doneSet_bound]) simp

lemma doneSet_full: "card (doneSet s) = length (workers s) \<Longrightarrow> doneSet s = {..<length (workers s)}"
  by (rule card_subset_eq[OF _ doneSet_bound]) simp_all

lemma doneSet_update:
  "w < length (workers s) \<Longrightarrow>
     doneSet (s\<lparr>workers := (workers s)[w := (h, st)]\<rparr>) =
       (if st = Done then insert w (doneSet s) else doneSet s - {w})"
  by (auto simp: doneSet_def nth_list_update)

lemma doneSet_cong: "workers s' = workers s \<Longrightarrow> doneSet s' = doneSet s"
  by (simp add: doneSet_def)

lemma hostIDs_update:
  "hostIDs U (s\<lparr>workers := (workers s)[w := (h, st)]\<rparr>) = (hostIDs U s)[w := IP (fileContract U h)]"
  by (simp add: hostIDs_def map_update)

lemma hostIDs_nth: "w < length (workers s) \<Longrightarrow> hostIDs U s ! w = IP (fileContract U (fst (workers s ! w)))"
  by (simp add: hostIDs_def)

lemma mainStep_inv:
  assumes "mainStep s = Some s'" and "upload_inv U ids s"
  shows "upload_inv U ids s'"
proof -
  have w: "workers s' = workers s" by (rule mainStep_workers[OF assms(1)])
  have c: "contracts (fl s') = contracts (fl s)"
    using assms(1) by (auto simp: mainStep_def split: step_splits)
  have d: "doneSet s' = doneSet s" by (rule doneSet_cong[OF w])
  have "collect_inv s'"
    using assms d w doneSet_full[of s]
    by (auto simp: mainStep_def upload_inv_def collect_inv_def split: step_splits)
  then show ?thesis
    using assms(2) w c d by (simp add: upload_inv_def hostIDs_def)
qed

lemma worker_update_inv:
  assumes inv: "upload_inv U ids s" and wl: "w < length (workers s)"
    and old: "snd (workers s ! w) \<noteq> Done" and new: "st \<noteq> Done"
    and ip: "IP (fileContract U h') = IP (fileContract U (fst (workers s ! w)))"
    and p: "pc s' = pc s" and c: "contracts (fl s') = contracts (fl s)"
    and ws: "workers s' = (workers s)[w := (h', st)]"
  shows "upload_inv U ids s'"
proof -
  have d: "doneSet s' = doneSet s"
    using wl old new by (auto simp: doneSet_def ws nth_list_update)
  have l: "length (workers s') = length (workers s)" by (simp add: ws)
  have "hostIDs U s' = (hostIDs U s)[w := IP (fileContract U h')]"
    by (simp add: hostIDs_def ws map_update)
  also have "\<dots> = hostIDs U s"
    using wl ip by (simp add: hostIDs_def list_update_same_conv)
  finally have h: "hostIDs U s' = hostIDs U s" .
  show ?thesis
    using inv d l h p c
    by (auto simp: upload_inv_def collect_inv_def split: upload_pc.splits option.splits)
qed

lemma send_inv:
  assumes st: "step U (SendContract w) s = Some s'" and inv: "upload_inv U ids s"
  shows "upload_inv U ids s'"
proof -
  from st obtain k where p: "pc s = Collecting k" and k: "0 < k" and wl: "w < length (workers s)"
    and rep: "snd (workers s ! w) = Reporting"
    and s': "s' = s\<lparr>pc := Collecting (k - 1),
                       workers := (workers s)[w := (fst (workers s ! w), Done)],
                       fl := (fl s)\<lparr>contracts := (contracts (fl s))
                          (IP (fileContract U (fst (workers s ! w))) \<mapsto>
                             fileContract U (fst (workers s ! w)))\<rparr>\<rparr>"
    by (auto simp: Let_def split: step_splits)
  have ids: "hostIDs U s = ids" using inv by (simp add: upload_inv_def)
  have idw: "ids ! w = IP (fileContract U (fst (workers s ! w)))"
    using hostIDs_nth[OF wl, of U] ids by simp
  have notin: "w \<notin> doneSet s" using rep by (simp add: doneSet_def)
  have d: "doneSet s' = insert w (doneSet s)"
    using wl by (auto simp: doneSet_def s' nth_list_update)
  have "hostIDs U s' = (hostIDs U s)[w := IP (fileContract U (fst (workers s ! w)))]"
    by (simp add: s' hostIDs_def map_update)
  also have "\<dots> = ids[w := ids ! w]" by (simp only: ids idw)
  also have "\<dots> = ids" by simp
  finally have h: "hostIDs U s' = ids" .
  have "dom (contracts (fl s')) = insert (ids ! w) (dom (contracts (fl s)))"
    by (simp add: s' idw)
  also have "\<dots> = (\<lambda>w. ids ! w) ` insert w (doneSet s)"
    using inv by (simp add: upload_inv_def)
  finally have dm: "dom (contracts (fl s')) = (\<lambda>w. ids ! w) ` doneSet s'"
    by (simp only: d)
  have l: "length (workers s') = length (workers s)" by (simp add: s')
  have p': "pc s' = Collecting (k - 1)" by (simp add: s')
  have "k + card (doneSet s) = length (workers s)"
    using inv p by (simp add: upload_inv_def collect_inv_def)
  then have "collect_inv s'"
    using k notin doneSet_finite[of s] by (simp add: collect_inv_def p' l d)
  then show ?thesis using h dm by (simp add: upload_inv_def)
qed

lemma step_inv:
  assumes stable: "\<And>h p. IP (fileContract U (snd (addPiece U h p))) = IP (fileContract U h)"
    and st: "step U a s = Some s'" and inv: "upload_inv U ids s"
  shows "upload_inv U ids s'"
proof (cases a)
  case MainStep
  then show ?thesis using st inv mainStep_inv by simp
next
  case (Recv w)
  from st Recv obtain i pieces j where p: "pc s = Sending i pieces j"
    and wl: "w < length (workers s)" and idle: "snd (workers s ! w) = Idle"
    and s': "s' = s\<lparr>pc := Sending i pieces (Suc j),
                       workers := (workers s)[w := (fst (workers s ! w),
                          Busy \<lparr>data = pieces ! j, chunkIndex = i, pieceIndex = of_nat j\<rparr>)]\<rparr>"
    by (auto split: step_splits)
  have "upload_inv U ids (s\<lparr>workers := (workers s)[w := (fst (workers s ! w),
                          Busy \<lparr>data = pieces ! j, chunkIndex = i, pieceIndex = of_nat j\<rparr>)]\<rparr>)"
    by (rule worker_update_inv[OF inv wl]) (use idle in simp_all)
  then show ?thesis using p by (simp add: s' upload_inv_def collect_inv_def hostIDs_def doneSet_def)
next
  case (AddPiece w)
  from st AddPiece obtain req where wl: "w < length (workers s)"
    and busy: "snd (workers s ! w) = Busy req"
    by (auto split: step_splits)
  obtain res h' where ap: "addPiece U (fst (workers s ! w)) req = (res, h')"
    by (cases "addPiece U (fst (workers s ! w)) req")
  have ip: "IP (fileContract U h') = IP (fileContract U (fst (workers s ! w)))"
    using stable[of "fst (workers s ! w)" req] ap by simp
  show ?thesis
  proof (cases res)
    case None
    show ?thesis
      by (rule worker_update_inv[OF inv wl _ _ ip, of Idle])
         (use st AddPiece wl busy ap None in auto)
  next
    case (Some e)
    show ?thesis
      by (rule worker_update_inv[OF inv wl _ _ ip, of Reporting])
         (use st AddPiece wl busy ap Some in auto)
  qed
next
  case (SeeClosed w)
  from st SeeClosed have wl: "w < length (workers s)" and idle: "snd (workers s ! w) = Idle"
    and s': "s' = s\<lparr>workers := (workers s)[w := (fst (workers s ! w), Reporting)]\<rparr>"
    by (auto split: step_splits)
  show ?thesis
    by (rule worker_update_inv[OF inv wl, of Reporting "fst (workers s ! w)"])
       (use idle s' in simp_all)
next
  case (SendContract w)
  then show ?thesis using st inv send_inv by simp
qed

lemma run_inv:
  assumes stable: "\<And>h p. IP (fileContract U (snd (addPiece U h p))) = IP (fileContract U h)"
  shows "run U es s = Some s' \<Longrightarrow> upload_inv U ids s \<Longrightarrow> upload_inv U ids s'"
proof (induction es arbitrary: s)
  case Nil
  then show ?case by simp
next
  case (Cons a es)
  from Cons.prems(1) obtain s1 where s1: "step U a s = Some s1" and r: "run U es s1 = Some s'"
    by (auto split: option.splits)
  from Cons.IH[OF r step_inv[OF stable s1 Cons.prems(2)]] show ?case .
qed

lemma image_nth_set: "(\<lambda>w. xs ! w) ` {..<length xs} = set xs"
  by (auto simp: in_set_conv_nth)

lemma spawned_inv:
  "contracts f = Map.empty \<Longrightarrow>
     upload_inv U (map (\<lambda>h. IP (fileContract U h)) hosts) (spawned f r hosts)"
  by (simp add: upload_inv_def collect_inv_def hostIDs_def doneSet_def spawned_def comp_def)

text \<open>
  C3. For sessions whose contracts carry pairwise distinct identities that \<^verbatim>\<open>addPiece\<close>
  does not change, and a fresh file record: once \<^verbatim>\<open>upload\<close> has returned \<^verbatim>\<open>nil\<close>, the keys
  of the contract map are exactly the identities of the sessions, so the map has one entry
  per session, and \<^verbatim>\<open>bytesUploaded\<close> is the sum of the data lengths of the pieces whose
  \<^verbatim>\<open>addPiece\<close> returned \<^verbatim>\<open>nil\<close>, as a \<^verbatim>\<open>uint64\<close>, and exactly that sum when it is below
  \<open>2\<^sup>6\<^sup>4\<close>. This holds in particular when every \<^verbatim>\<open>addPiece\<close> call succeeds.
\<close>

theorem upload_all_succeed:
  assumes stable: "\<And>h p. IP (fileContract U (snd (addPiece U h p))) = IP (fileContract U h)"
    and dist: "distinct (map (\<lambda>h. IP (fileContract U h)) hosts)"
    and fresh: "contracts f = Map.empty" "bytesUploaded f = 0"
    and ret: "upload U es f r hosts = Some (None, s)"
  shows "dom (contracts (fl s)) = set (map (\<lambda>h. IP (fileContract U h)) hosts)
       \<and> card (dom (contracts (fl s))) = length hosts
       \<and> bytesUploaded (fl s) =
           of_nat (sum_list (map (\<lambda>p. length (data p)) (delivered U es (spawned f r hosts))))
       \<and> (sum_list (map (\<lambda>p. length (data p)) (delivered U es (spawned f r hosts))) < 2 ^ 64 \<longrightarrow>
            unat (bytesUploaded (fl s)) =
              sum_list (map (\<lambda>p. length (data p)) (delivered U es (spawned f r hosts))))"
proof -
  let ?ids = "map (\<lambda>h. IP (fileContract U h)) hosts"
  from ret have r: "run U es (spawned f r hosts) = Some s" and p: "pc s = Returned None"
    by (auto simp: upload_def split: step_splits)
  have inv: "upload_inv U ?ids s"
    by (rule run_inv[OF stable r spawned_inv[OF fresh(1)]])
  have len: "length (workers s) = length hosts"
    using run_length[OF r] by (simp add: spawned_def)
  from inv p have "dom (contracts (fl s)) = (\<lambda>w. ?ids ! w) ` {..<length hosts}"
    by (simp add: upload_inv_def collect_inv_def len)
  also have "\<dots> = set ?ids"
    using image_nth_set[of ?ids] by simp
  finally have dm: "dom (contracts (fl s)) = set ?ids" .
  have "card (set ?ids) = length hosts"
    using distinct_card[OF dist] by simp
  with dm run_bytes[OF r] fresh(2) show ?thesis
    by (simp add: spawned_def unat_of_nat)
qed

lemma run_schedBC:
  "run testUploader schedBC (spawned testFile diskA [hostB, hostC]) = Some finalBC"
  by (simp add: schedBC_def finalBC_def spawned_def mainStep_def ReadFull_def chunkSize_def
      testFile_def testCode_def diskA_def hostB_def hostC_def testUploader_def)

theorem upload_all_succeed_witness:
  "upload testUploader schedBC testFile diskA [hostB, hostC] = Some (None, finalBC)
   \<and> dom (contracts (fl finalBC)) = {''10.0.0.2'', ''10.0.0.3''}
   \<and> card (dom (contracts (fl finalBC))) = 2
   \<and> delivered testUploader schedBC (spawned testFile diskA [hostB, hostC]) =
        [\<lparr>data = [7, 8], chunkIndex = 0, pieceIndex = 0\<rparr>,
         \<lparr>data = [7, 8], chunkIndex = 0, pieceIndex = 1\<rparr>]
   \<and> bytesUploaded (fl finalBC) = 4 \<and> unat (bytesUploaded (fl finalBC)) = 4"
proof -
  have stable: "IP (fileContract testUploader (snd (addPiece testUploader h p))) =
      IP (fileContract testUploader h)" for h p
    by (simp add: testUploader_def)
  have dist: "distinct (map (\<lambda>h. IP (fileContract testUploader h)) [hostB, hostC])"
    by (simp add: testUploader_def hostB_def hostC_def)
  have fresh: "contracts testFile = Map.empty" "bytesUploaded testFile = 0"
    by (simp_all add: testFile_def)
  have ret: "upload testUploader schedBC testFile diskA [hostB, hostC] = Some (None, finalBC)"
    by (simp add: upload_def run_schedBC) (simp add: finalBC_def)
  have del: "delivered testUploader schedBC (spawned testFile diskA [hostB, hostC]) =
        [\<lparr>data = [7, 8], chunkIndex = 0, pieceIndex = 0\<rparr>,
         \<lparr>data = [7, 8], chunkIndex = 0, pieceIndex = 1\<rparr>]"
    by (simp add: schedBC_def accepted_def spawned_def mainStep_def ReadFull_def chunkSize_def
      testFile_def testCode_def diskA_def hostB_def hostC_def testUploader_def)
  from upload_all_succeed[OF stable dist fresh ret] ret del
  show ?thesis by (simp add: testUploader_def hostB_def hostC_def)
qed

lemma run_append:
  "run U (es @ es') s = (case run U es s of None \<Rightarrow> None | Some s1 \<Rightarrow> run U es' s1)"
  by (induction es arbitrary: s) (auto split: option.splits)

lemma doneSet_worker:
  "workers s' = (workers s)[w := (h, st)] \<Longrightarrow> w < length (workers s) \<Longrightarrow>
     doneSet s' = (if st = Done then insert w (doneSet s) else doneSet s - {w})"
  by (auto simp: doneSet_def nth_list_update)

lemma mainStep_pc:
  assumes "mainStep s = Some s'"
  shows "((\<exists>i. pc s = Reading i) \<and>
            (pc s' = Collecting (length (workers s)) \<and> closed s'
             \<or> (\<exists>e. pc s' = Returned (Some e)) \<or> (\<exists>i p. pc s' = Sending i p 0)))
       \<or> ((\<exists>i p j. pc s = Sending i p j) \<and> (\<exists>i. pc s' = Reading i))
       \<or> (pc s = Collecting 0 \<and> pc s' = Returned None)"
proof (cases "pc s")
  case (Reading i)
  then show ?thesis using assms by (auto simp: mainStep_def split: step_splits)
next
  case (Sending i p j)
  then show ?thesis using assms by (auto simp: mainStep_def split: if_splits)
next
  case (Collecting k)
  then show ?thesis using assms by (auto simp: mainStep_def split: if_splits)
next
  case (Returned e)
  then show ?thesis using assms by (simp add: mainStep_def)
qed

lemma mainStep_collect:
  assumes "mainStep s = Some s'" and "collect_inv s" and "closed_inv s"
  shows "collect_inv s' \<and> closed_inv s'"
proof -
  have w: "workers s' = workers s" by (rule mainStep_workers[OF assms(1)])
  have d: "doneSet s' = doneSet s" by (rule doneSet_cong[OF w])
  from mainStep_pc[OF assms(1)] consider
      (eof) i where "pc s = Reading i" "pc s' = Collecting (length (workers s))" "closed s'"
    | (err) i e where "pc s = Reading i" "pc s' = Returned (Some e)"
    | (chunk) i i' p where "pc s = Reading i" "pc s' = Sending i' p 0"
    | (nxt) i p j i' where "pc s = Sending i p j" "pc s' = Reading i'"
    | (fin) "pc s = Collecting 0" "pc s' = Returned None"
    by blast
  then show ?thesis
  proof cases
    case eof
    then show ?thesis using assms(2) d w by (simp add: collect_inv_def closed_inv_def)
  next
    case err
    then show ?thesis using assms(2) d w by (simp add: collect_inv_def closed_inv_def)
  next
    case chunk
    then show ?thesis using assms(2) d w by (simp add: collect_inv_def closed_inv_def)
  next
    case nxt
    then show ?thesis using assms(2) d w by (simp add: collect_inv_def closed_inv_def)
  next
    case fin
    then have "card (doneSet s) = length (workers s)"
      using assms(2) by (simp add: collect_inv_def)
    from doneSet_full[OF this] fin show ?thesis
      using d w by (simp add: collect_inv_def closed_inv_def)
  qed
qed

lemma step_collect:
  assumes st: "step U a s = Some s'" and c: "collect_inv s" and cl: "closed_inv s"
  shows "collect_inv s' \<and> closed_inv s'"
proof (cases a)
  case MainStep
  then show ?thesis using st c cl mainStep_collect by simp
next
  case (Recv w)
  from st Recv obtain i pieces j where p: "pc s = Sending i pieces j"
    and wl: "w < length (workers s)" and idle: "snd (workers s ! w) = Idle"
    and p': "pc s' = Sending i pieces (Suc j)"
    and ws: "workers s' = (workers s)[w := (fst (workers s ! w),
                Busy \<lparr>data = pieces ! j, chunkIndex = i, pieceIndex = of_nat j\<rparr>)]"
    by (auto split: step_splits)
  have "doneSet s = {}" using c p by (simp add: collect_inv_def)
  then have "doneSet s' = {}" using doneSet_worker[OF ws wl] by simp
  then show ?thesis using p' by (simp add: collect_inv_def closed_inv_def)
next
  case (AddPiece w)
  from st AddPiece obtain req where wl: "w < length (workers s)"
    and busy: "snd (workers s ! w) = Busy req"
    by (auto split: step_splits)
  obtain res h' where ap: "addPiece U (fst (workers s ! w)) req = (res, h')"
    by (cases "addPiece U (fst (workers s ! w)) req")
  define st' where "st' = (if res = None then Idle else Reporting)"
  have st': "st' \<noteq> Done" by (simp add: st'_def)
  have ws: "workers s' = (workers s)[w := (h', st')]"
    and p: "pc s' = pc s" and k: "closed s' = closed s"
    using st AddPiece wl busy ap by (auto simp: st'_def split: option.splits)
  have "doneSet s' = doneSet s"
    using doneSet_worker[OF ws wl] st' busy wl by (auto simp: doneSet_def)
  moreover have "length (workers s') = length (workers s)" by (simp add: ws)
  ultimately show ?thesis using c cl p k
    by (auto simp: collect_inv_def closed_inv_def split: upload_pc.splits option.splits)
next
  case (SeeClosed w)
  from st SeeClosed have wl: "w < length (workers s)" and idle: "snd (workers s ! w) = Idle"
    and ws: "workers s' = (workers s)[w := (fst (workers s ! w), Reporting)]"
    and p: "pc s' = pc s" and k: "closed s' = closed s"
    by (auto split: step_splits)
  have "doneSet s' = doneSet s"
    using doneSet_worker[OF ws wl] idle wl by (auto simp: doneSet_def)
  moreover have "length (workers s') = length (workers s)" by (simp add: ws)
  ultimately show ?thesis using c cl p k
    by (auto simp: collect_inv_def closed_inv_def split: upload_pc.splits option.splits)
next
  case (SendContract w)
  from st SendContract obtain k where p: "pc s = Collecting k" and k: "0 < k"
    and wl: "w < length (workers s)" and rep: "snd (workers s ! w) = Reporting"
    and p': "pc s' = Collecting (k - 1)" and k': "closed s' = closed s"
    and ws: "workers s' = (workers s)[w := (fst (workers s ! w), Done)]"
    by (auto simp: Let_def split: step_splits)
  have notin: "w \<notin> doneSet s" using rep by (simp add: doneSet_def)
  have d: "doneSet s' = insert w (doneSet s)" using doneSet_worker[OF ws wl] by simp
  have l: "length (workers s') = length (workers s)" by (simp add: ws)
  have "k + card (doneSet s) = length (workers s)"
    using c p by (simp add: collect_inv_def)
  then have "collect_inv s'"
    using k notin doneSet_finite[of s] by (simp add: collect_inv_def p' l d)
  moreover have "closed_inv s'" using cl p p' k' by (simp add: closed_inv_def)
  ultimately show ?thesis by simp
qed

lemma run_collect:
  "run U es s = Some s' \<Longrightarrow> collect_inv s \<Longrightarrow> closed_inv s \<Longrightarrow> collect_inv s' \<and> closed_inv s'"
proof (induction es arbitrary: s)
  case Nil
  then show ?case by simp
next
  case (Cons a es)
  from Cons.prems(1) obtain s1 where s1: "step U a s = Some s1" and r: "run U es s1 = Some s'"
    by (auto split: option.splits)
  from step_collect[OF s1 Cons.prems(2,3)] Cons.IH[OF r] show ?case by simp
qed

lemma spawned_collect: "collect_inv (spawned f r hosts) \<and> closed_inv (spawned f r hosts)"
  by (simp add: collect_inv_def closed_inv_def doneSet_def spawned_def)

lemma collecting_pos:
  assumes "collect_inv s" and "pc s = Collecting k" and "w < length (workers s)"
    and "snd (workers s ! w) \<noteq> Done"
  shows "0 < k"
proof -
  have "doneSet s \<subseteq> {..<length (workers s)} - {w}"
    using assms(4) by (auto simp: doneSet_def)
  then have "card (doneSet s) \<le> card ({..<length (workers s)} - {w})"
    by (intro card_mono) simp_all
  also have "\<dots> < length (workers s)" using assms(3) by simp
  finally show ?thesis using assms(1,2) by (simp add: collect_inv_def)
qed

lemma send_enabled:
  assumes "pc s = Collecting k" and "0 < k" and "w < length (workers s)"
    and "snd (workers s ! w) = Reporting"
  shows "step U (SendContract w) s =
           Some (s\<lparr>pc := Collecting (k - 1),
                   workers := (workers s)[w := (fst (workers s ! w), Done)],
                   fl := (fl s)\<lparr>contracts := (contracts (fl s))
                      (IP (fileContract U (fst (workers s ! w))) \<mapsto>
                         fileContract U (fst (workers s ! w)))\<rparr>\<rparr>)"
  using assms by (simp add: Let_def)

lemma finish_from_reporting:
  assumes "collect_inv s" and "pc s = Collecting k" and "w < length (workers s)"
    and "snd (workers s ! w) = Reporting"
  shows "\<exists>s'. run U [SendContract w] s = Some s' \<and> snd (workers s' ! w) = Done"
proof -
  have "0 < k" by (rule collecting_pos[OF assms(1,2,3)]) (simp add: assms(4))
  from send_enabled[OF assms(2) this assms(3,4), of U] assms(3) show ?thesis by simp
qed

lemma finish_from_idle:
  assumes "collect_inv s" and "closed_inv s" and "pc s = Collecting k" and "w < length (workers s)"
    and "snd (workers s ! w) = Idle"
  shows "\<exists>s'. run U [SeeClosed w, SendContract w] s = Some s' \<and> snd (workers s' ! w) = Done"
proof -
  let ?s1 = "s\<lparr>workers := (workers s)[w := (fst (workers s ! w), Reporting)]\<rparr>"
  have cl: "closed s" using assms(2,3) by (simp add: closed_inv_def)
  have s1: "step U (SeeClosed w) s = Some ?s1" using assms(4,5) cl by simp
  have inv: "collect_inv ?s1 \<and> closed_inv ?s1" by (rule step_collect[OF s1 assms(1,2)])
  have "\<exists>s'. run U [SendContract w] ?s1 = Some s' \<and> snd (workers s' ! w) = Done"
    by (rule finish_from_reporting[of ?s1 k]) (use inv assms(3,4) in simp_all)
  then show ?thesis using s1 by simp
qed

lemma finish_from_busy:
  assumes "collect_inv s" and "closed_inv s" and "pc s = Collecting k" and "w < length (workers s)"
    and "snd (workers s ! w) = Busy req"
  shows "\<exists>es' s'. length es' \<le> 3 \<and> set es' \<subseteq> {AddPiece w, SeeClosed w, SendContract w}
           \<and> run U es' s = Some s' \<and> snd (workers s' ! w) = Done"
proof -
  obtain res h' where ap: "addPiece U (fst (workers s ! w)) req = (res, h')"
    by (cases "addPiece U (fst (workers s ! w)) req")
  obtain s1 where s1: "step U (AddPiece w) s = Some s1"
    and st: "snd (workers s1 ! w) = (if res = None then Idle else Reporting)"
    and p1: "pc s1 = Collecting k" and l1: "w < length (workers s1)"
    using assms(3,4,5) ap by (cases res) auto
  have inv: "collect_inv s1 \<and> closed_inv s1" by (rule step_collect[OF s1 assms(1,2)])
  show ?thesis
  proof (cases res)
    case None
    with st have "snd (workers s1 ! w) = Idle" by simp
    from finish_from_idle[OF _ _ p1 l1 this, of U] inv obtain s' where
      "run U [SeeClosed w, SendContract w] s1 = Some s'" "snd (workers s' ! w) = Done" by blast
    then have "run U [AddPiece w, SeeClosed w, SendContract w] s = Some s' \<and> snd (workers s' ! w) = Done"
      using s1 by simp
    then show ?thesis
      by (intro exI[of _ "[AddPiece w, SeeClosed w, SendContract w]"] exI[of _ s']) simp
  next
    case (Some e)
    with st have "snd (workers s1 ! w) = Reporting" by simp
    from finish_from_reporting[OF _ p1 l1 this, of U] inv obtain s' where
      "run U [SendContract w] s1 = Some s'" "snd (workers s' ! w) = Done" by blast
    then have "run U [AddPiece w, SendContract w] s = Some s' \<and> snd (workers s' ! w) = Done"
      using s1 by simp
    then show ?thesis
      by (intro exI[of _ "[AddPiece w, SendContract w]"] exI[of _ s']) simp
  qed
qed

lemma worker_can_finish:
  assumes "collect_inv s" and "closed_inv s" and "pc s = Collecting k" and "w < length (workers s)"
    and "snd (workers s ! w) \<noteq> Done"
  shows "\<exists>es' s'. length es' \<le> 3 \<and> set es' \<subseteq> {AddPiece w, SeeClosed w, SendContract w}
           \<and> run U es' s = Some s' \<and> snd (workers s' ! w) = Done"
proof (cases "snd (workers s ! w)")
  case Idle
  from finish_from_idle[OF assms(1,2,3,4) this, of U] obtain s' where
    "run U [SeeClosed w, SendContract w] s = Some s' \<and> snd (workers s' ! w) = Done" by blast
  then show ?thesis
    by (intro exI[of _ "[SeeClosed w, SendContract w]"] exI[of _ s']) simp
next
  case (Busy req)
  from finish_from_busy[OF assms(1,2,3,4) this] show ?thesis .
next
  case Reporting
  from finish_from_reporting[OF assms(1,3,4) this, of U] obtain s' where
    "run U [SendContract w] s = Some s' \<and> snd (workers s' ! w) = Done" by blast
  then show ?thesis
    by (intro exI[of _ "[SendContract w]"] exI[of _ s']) simp
next
  case Done
  then show ?thesis using assms(5) by simp
qed

text \<open>
  C2. In every run of the spawned workers:
  \<^item> the number of contracts worker \<open>w\<close> has sent on \<^verbatim>\<open>respChan\<close> is one if it has returned
    and zero otherwise, and it is one once \<^verbatim>\<open>upload\<close> has returned \<^verbatim>\<open>nil\<close>;
  \<^item> both ways out of the loop, the closed \<^verbatim>\<open>reqChan\<close> and a failed \<^verbatim>\<open>addPiece\<close>, bring the
    worker to its send;
  \<^item> while \<^verbatim>\<open>upload\<close> collects, the send of a worker that is there is enabled and
    delivers the session's contract, and every worker that has not returned can return in
    at most three steps of its own, having sent exactly one contract.
\<close>

theorem worker_sends_exactly_one:
  assumes "run U es (spawned f r hosts) = Some s" and "w < length hosts"
  shows "count_list es (SendContract w) = (if snd (workers s ! w) = Done then 1 else 0)
       \<and> (pc s = Returned None \<longrightarrow> count_list es (SendContract w) = 1)
       \<and> (snd (workers s ! w) = Idle \<and> closed s \<longrightarrow>
            step U (SeeClosed w) s =
              Some (s\<lparr>workers := (workers s)[w := (fst (workers s ! w), Reporting)]\<rparr>))
       \<and> (\<forall>req err h'. snd (workers s ! w) = Busy req
              \<and> addPiece U (fst (workers s ! w)) req = (Some err, h') \<longrightarrow>
            step U (AddPiece w) s = Some (s\<lparr>workers := (workers s)[w := (h', Reporting)]\<rparr>))
       \<and> (\<forall>k. snd (workers s ! w) = Reporting \<and> pc s = Collecting k \<longrightarrow>
            step U (SendContract w) s =
              Some (s\<lparr>pc := Collecting (k - 1),
                      workers := (workers s)[w := (fst (workers s ! w), Done)],
                      fl := (fl s)\<lparr>contracts := (contracts (fl s))
                         (IP (fileContract U (fst (workers s ! w))) \<mapsto>
                            fileContract U (fst (workers s ! w)))\<rparr>\<rparr>))
       \<and> (\<forall>k. snd (workers s ! w) \<noteq> Done \<and> pc s = Collecting k \<longrightarrow>
            (\<exists>es' s'. length es' \<le> 3 \<and> set es' \<subseteq> {AddPiece w, SeeClosed w, SendContract w}
               \<and> run U (es @ es') (spawned f r hosts) = Some s'
               \<and> snd (workers s' ! w) = Done
               \<and> count_list (es @ es') (SendContract w) = 1))"
proof -
  have len: "length (workers s) = length hosts"
    using run_length[OF assms(1)] by (simp add: spawned_def)
  have wl: "w < length (workers s)" using assms(2) len by simp
  have w0: "w < length (workers (spawned f r hosts))" using assms(2) by (simp add: spawned_def)
  have inv: "collect_inv s \<and> closed_inv s"
    using run_collect[OF assms(1)] spawned_collect by blast
  have cnt: "count_list es (SendContract w) = (if snd (workers s ! w) = Done then 1 else 0)"
    using run_sent[OF assms(1), of w] assms(2) by (simp add: sent_def spawned_def)
  have nil: "pc s = Returned None \<longrightarrow> count_list es (SendContract w) = 1"
  proof
    assume "pc s = Returned None"
    then have "doneSet s = {..<length (workers s)}" using inv by (simp add: collect_inv_def)
    then have "w \<in> doneSet s" using wl by simp
    then show "count_list es (SendContract w) = 1" using cnt by (simp add: doneSet_def)
  qed
  have closedexit: "snd (workers s ! w) = Idle \<and> closed s \<longrightarrow>
            step U (SeeClosed w) s =
              Some (s\<lparr>workers := (workers s)[w := (fst (workers s ! w), Reporting)]\<rparr>)"
    using wl by simp
  have errexit: "\<forall>req err h'. snd (workers s ! w) = Busy req
              \<and> addPiece U (fst (workers s ! w)) req = (Some err, h') \<longrightarrow>
            step U (AddPiece w) s = Some (s\<lparr>workers := (workers s)[w := (h', Reporting)]\<rparr>)"
    using wl by simp
  have send: "\<forall>k. snd (workers s ! w) = Reporting \<and> pc s = Collecting k \<longrightarrow>
            step U (SendContract w) s =
              Some (s\<lparr>pc := Collecting (k - 1),
                      workers := (workers s)[w := (fst (workers s ! w), Done)],
                      fl := (fl s)\<lparr>contracts := (contracts (fl s))
                         (IP (fileContract U (fst (workers s ! w))) \<mapsto>
                            fileContract U (fst (workers s ! w)))\<rparr>\<rparr>)"
  proof (intro allI impI)
    fix k
    assume a: "snd (workers s ! w) = Reporting \<and> pc s = Collecting k"
    have "0 < k" by (rule collecting_pos[of s k w]) (use a inv wl in simp_all)
    from send_enabled[OF _ this wl, of U] a show "step U (SendContract w) s =
              Some (s\<lparr>pc := Collecting (k - 1),
                      workers := (workers s)[w := (fst (workers s ! w), Done)],
                      fl := (fl s)\<lparr>contracts := (contracts (fl s))
                         (IP (fileContract U (fst (workers s ! w))) \<mapsto>
                            fileContract U (fst (workers s ! w)))\<rparr>\<rparr>)"
      by simp
  qed
  have prog: "\<forall>k. snd (workers s ! w) \<noteq> Done \<and> pc s = Collecting k \<longrightarrow>
            (\<exists>es' s'. length es' \<le> 3 \<and> set es' \<subseteq> {AddPiece w, SeeClosed w, SendContract w}
               \<and> run U (es @ es') (spawned f r hosts) = Some s'
               \<and> snd (workers s' ! w) = Done
               \<and> count_list (es @ es') (SendContract w) = 1)"
  proof (intro allI impI)
    fix k
    assume a: "snd (workers s ! w) \<noteq> Done \<and> pc s = Collecting k"
    from worker_can_finish[of s k w U] inv a wl obtain es' s' where
      e: "length es' \<le> 3" "set es' \<subseteq> {AddPiece w, SeeClosed w, SendContract w}"
      and r: "run U es' s = Some s'" and d: "snd (workers s' ! w) = Done" by blast
    have r': "run U (es @ es') (spawned f r hosts) = Some s'"
      using assms(1) r by (simp add: run_append)
    have "count_list (es @ es') (SendContract w) = 1"
      using run_sent[OF r' w0] d assms(2) by (simp add: sent_def spawned_def)
    with e r' d show "\<exists>es' s'. length es' \<le> 3 \<and> set es' \<subseteq> {AddPiece w, SeeClosed w, SendContract w}
               \<and> run U (es @ es') (spawned f r hosts) = Some s'
               \<and> snd (workers s' ! w) = Done
               \<and> count_list (es @ es') (SendContract w) = 1" by blast
  qed
  from cnt nil closedexit errexit send prog show ?thesis by blast
qed


lemma run_schedABmid:
  "run testUploader schedABmid (spawned testFile diskA [hostA, hostB]) = Some midAB"
  by (simp add: schedABmid_def midAB_def spawned_def mainStep_def ReadFull_def chunkSize_def
      testFile_def testCode_def diskA_def hostA_def hostB_def testUploader_def)

lemma run_busyAB:
  "run testUploader [MainStep, Recv 0] (spawned testFile diskA [hostA, hostB]) = Some busyAB"
  by (simp add: busyAB_def spawned_def mainStep_def ReadFull_def chunkSize_def
      testFile_def testCode_def diskA_def hostA_def hostB_def testUploader_def)

theorem worker_sends_exactly_one_witness:
  "run testUploader schedAB (spawned testFile diskA [hostA, hostB]) = Some finalAB
   \<and> pc finalAB = Returned None
   \<and> count_list schedAB (SendContract 0) = 1 \<and> count_list schedAB (SendContract 1) = 1
   \<and> run testUploader [MainStep, Recv 0] (spawned testFile diskA [hostA, hostB]) = Some busyAB
   \<and> step testUploader (AddPiece 0) busyAB =
        Some (busyAB\<lparr>workers := [(hostA, Reporting), (hostB, Idle)]\<rparr>)
   \<and> run testUploader schedABmid (spawned testFile diskA [hostA, hostB]) = Some midAB
   \<and> step testUploader (SeeClosed 1) midAB =
        Some (midAB\<lparr>workers := [(hostA, Reporting), (hostB\<lparr>stored := [(0, 1)]\<rparr>, Reporting)]\<rparr>)
   \<and> step testUploader (SendContract 0) midAB =
        Some (midAB\<lparr>pc := Collecting 1,
                      workers := [(hostA, Done), (hostB\<lparr>stored := [(0, 1)]\<rparr>, Idle)],
                      fl := (fl midAB)\<lparr>contracts :=
                               [''10.0.0.1'' \<mapsto> \<lparr>IP = ''10.0.0.1'', Pieces = []\<rparr>]\<rparr>\<rparr>)"
proof -
  have l0: "0 < length [hostA, hostB]" and l1: "1 < length [hostA, hostB]" by simp_all
  from worker_sends_exactly_one[OF run_schedAB l0] worker_sends_exactly_one[OF run_schedAB l1]
  have fin: "pc finalAB = Returned None \<longrightarrow>
      count_list schedAB (SendContract 0) = 1 \<and> count_list schedAB (SendContract 1) = 1"
    by blast
  from worker_sends_exactly_one[OF run_busyAB l0]
  have busy: "snd (workers busyAB ! 0) = Busy \<lparr>data = [7, 8], chunkIndex = 0, pieceIndex = 0\<rparr>
      \<and> addPiece testUploader (fst (workers busyAB ! 0))
            \<lparr>data = [7, 8], chunkIndex = 0, pieceIndex = 0\<rparr>
          = (Some (ErrOther ''host refused''), hostA)
      \<longrightarrow> step testUploader (AddPiece 0) busyAB =
            Some (busyAB\<lparr>workers := (workers busyAB)[0 := (hostA, Reporting)]\<rparr>)"
    by blast
  from worker_sends_exactly_one[OF run_schedABmid l1]
  have idle: "snd (workers midAB ! 1) = Idle \<and> closed midAB \<longrightarrow>
      step testUploader (SeeClosed 1) midAB =
        Some (midAB\<lparr>workers := (workers midAB)[1 := (fst (workers midAB ! 1), Reporting)]\<rparr>)"
    by blast
  from worker_sends_exactly_one[OF run_schedABmid l0]
  have rep: "snd (workers midAB ! 0) = Reporting \<and> pc midAB = Collecting 2 \<longrightarrow>
      step testUploader (SendContract 0) midAB =
        Some (midAB\<lparr>pc := Collecting (2 - 1),
                workers := (workers midAB)[0 := (fst (workers midAB ! 0), Done)],
                fl := (fl midAB)\<lparr>contracts := (contracts (fl midAB))
                   (IP (fileContract testUploader (fst (workers midAB ! 0))) \<mapsto>
                      fileContract testUploader (fst (workers midAB ! 0)))\<rparr>\<rparr>)"
    by blast
  have f: "pc finalAB = Returned None" by (simp add: finalAB_def)
  have b: "snd (workers busyAB ! 0) = Busy \<lparr>data = [7, 8], chunkIndex = 0, pieceIndex = 0\<rparr>
      \<and> addPiece testUploader (fst (workers busyAB ! 0))
            \<lparr>data = [7, 8], chunkIndex = 0, pieceIndex = 0\<rparr>
          = (Some (ErrOther ''host refused''), hostA)"
    by (simp add: busyAB_def testUploader_def hostA_def)
  have i: "snd (workers midAB ! 1) = Idle \<and> closed midAB" by (simp add: midAB_def)
  have r: "snd (workers midAB ! 0) = Reporting \<and> pc midAB = Collecting 2" by (simp add: midAB_def)
  from fin f busy b idle i rep r run_schedAB run_busyAB run_schedABmid show ?thesis
    by (simp add: busyAB_def midAB_def testUploader_def hostA_def testFile_def)
qed

text \<open>
  C1. On a stream whose first read fails, with one session: \<^verbatim>\<open>upload\<close> returns the read
  error after its first step, leaving \<^verbatim>\<open>reqChan\<close> open and no contract collected; the worker
  is still blocked in its receive, and no event is enabled in that state, so it stays
  blocked forever.
\<close>

theorem upload_abort_leaves_workers_blocked:
  "upload testUploader [MainStep] testFile diskBad [hostB] =
     Some (Some (ErrOther ''read error''), abortedB)
   \<and> closed abortedB = False
   \<and> workers abortedB = [(hostB, Idle)]
   \<and> contracts (fl abortedB) = Map.empty
   \<and> (\<forall>e. step testUploader e abortedB = None)"
proof -
  have "upload testUploader [MainStep] testFile diskBad [hostB] =
     Some (Some (ErrOther ''read error''), abortedB)"
    by (simp add: upload_def spawned_def mainStep_def ReadFull_def chunkSize_def
        testFile_def testCode_def diskBad_def abortedB_def)
  moreover have "step testUploader e abortedB = None" for e
    by (cases e) (simp_all add: abortedB_def mainStep_def)
  ultimately show ?thesis
    by (simp add: abortedB_def testFile_def)
qed

section \<open>Properties of \<^verbatim>\<open>Upload\<close> and \<^verbatim>\<open>checkWalletBalance\<close>\<close>

lemma Ext_a: "Ext ''a.txt'' = ''.txt''" "Ext ''b.txt'' = ''.txt''"
  by (simp_all add: Ext_def)

lemma int_quo_test: "int_quo (int_mul 2 3) 2 = 3" "int_quo (int_mul 3 3) 2 = 4"
  by (simp_all add: int_quo_def int_mul_def)

lemma connectHosts_eq:
  "connectHosts w cs ts d k hs =
     (hs @ constructed w cs ts d k, w\<lparr>contacted := contacted w @ cs\<rparr>)"
proof (induction cs arbitrary: w hs)
  case Nil
  show ?case by (simp add: constructed_def)
next
  case (Cons c cs)
  show ?case
    by (simp add: Cons.IH constructed_def split: sum.splits)
qed

lemma checkWalletBalance_env:
  "checkWalletBalance up w = Some (res, w') \<Longrightarrow>
     w' = w \<or> (\<exists>ec. ErasureCode up = Some ec
                \<and> w' = w\<lparr>requested := requested w @ [int_quo (int_mul (NumPieces ec) 3) 2]\<rparr>)"
  by (auto simp: checkWalletBalance_def RandomHosts_def Let_def split: sum.splits option.splits if_splits)

lemma fold_Price: "fold (\<lambda>host a. a + Price host) hosts a0 = a0 + sum_list (map Price hosts)"
  by (induction hosts arbitrary: a0) simp_all

text \<open>
  C10. A file whose size is above 5 * 1024 * 1024 * 1024 makes \<^verbatim>\<open>Upload\<close> return an error
  under every schedule, with the renter unchanged, no request to the host database (so no
  balance check) and no host contacted; when the extension and nickname checks pass, the
  error is the size error and the only effect is the opened handle. The result does not
  depend on the defaults.
\<close>

theorem Upload_rejects_large:
  assumes "osOpen w (Filename up) = Inr handle" and "handleStat w (Filename up) = Inr fi"
    and "Size fi > 5 * 1024 * 1024 * 1024"
  shows "(\<exists>e w'. Upload ovh U sched up (r, w) = Some (Some e, r, w')
            \<and> requested w' = requested w \<and> contacted w' = contacted w)
       \<and> (Ext (Filename up) = Ext (Nickname up) \<and> files r (Nickname up) = None \<longrightarrow>
            Upload ovh U sched up (r, w) =
              Some (Some (ErrOther ''cannot upload a file larger than 5 GB''), r,
                    w\<lparr>opened := opened w @ [handle]\<rparr>))"
  using assms by (auto simp: Upload_def connectAndTransfer_def Let_def)

text \<open>
  C8, amended. When \<^verbatim>\<open>os.Stat\<close> succeeds and the erasure code is set,
  \<^verbatim>\<open>checkWalletBalance\<close> returns an error exactly if the sampled host list is empty or
  2 \<times> average price \<times> duration \<times> size exceeds the confirmed balance, the average being
  the sum of the prices divided by their number, rounded down. It contacts no host and
  reads no file, and \<^verbatim>\<open>Upload\<close> returns its error as it is, the renter unchanged.
\<close>

theorem checkWalletBalance_iff:
  assumes "osStat w (Filename up) = Inr fi" and "ErasureCode up = Some ec"
    and "hosts = hostDB w (requested w @ [int_quo (int_mul (NumPieces ec) 3) 2])"
    and "sz = unat (word_of_int (Size fi) :: 64 word)"
  shows "\<exists>res w'. checkWalletBalance up w = Some (res, w')
           \<and> contacted w' = contacted w \<and> opened w' = opened w
           \<and> (res \<noteq> None \<longleftrightarrow>
                 hosts = [] \<or>
                 2 * (sum_list (map Price hosts) div length hosts) * unat (Duration up) * sz
                   > ConfirmedBalance w)
           \<and> (res \<noteq> None \<and> Ext (Filename up0) = Ext (Nickname up0)
                \<and> osOpen w0 (Filename up0) = Inr handle \<and> files r (Nickname up0) = None
                \<and> handleStat w0 (Filename up0) = Inr fi0 \<and> Size fi0 \<le> 5 * 1024 * 1024 * 1024
                \<and> w = w0\<lparr>opened := opened w0 @ [handle]\<rparr> \<and> up = fillDefaults ovh w fi0 up0
                \<longrightarrow> Upload ovh U sched up0 (r, w0) = Some (res, r, w'))"
  using assms
  by (auto simp: checkWalletBalance_def RandomHosts_def Let_def fold_Price Upload_def connectAndTransfer_def mult_ac)

text \<open>
  C6. Once the checks and the balance check have passed, \<^verbatim>\<open>Upload\<close> goes on with exactly
  the sessions that could be constructed, the candidates whose construction failed being
  skipped. With fewer sessions than \<^verbatim>\<open>MinPieces\<close> it returns the insufficient-hosts error
  under every schedule, the renter unchanged and the opened handle unread; otherwise it
  transfers the file to these sessions.
\<close>

theorem Upload_host_sessions:
  assumes ext: "Ext (Filename up0) = Ext (Nickname up0)"
    and op: "osOpen w0 (Filename up0) = Inr handle"
    and nick: "files r (Nickname up0) = None"
    and st: "handleStat w0 (Filename up0) = Inr fi"
    and sz: "Size fi \<le> 5 * 1024 * 1024 * 1024"
    and up: "up = fillDefaults ovh (w0\<lparr>opened := opened w0 @ [handle]\<rparr>) fi up0"
    and bal: "checkWalletBalance up (w0\<lparr>opened := opened w0 @ [handle]\<rparr>) = Some (None, w2)"
    and ec: "ErasureCode up = Some ec"
    and f: "f = (newFile (GenerateTwofishKey w2) (Nickname up) ec (PieceSize up)
                   (word_of_int (Size fi)))\<lparr>mode := Mode fi\<rparr>"
    and cands: "RandomHosts w2 (int_quo (int_mul (NumPieces ec) 3) 2) = (candidates, w3)"
    and sess: "sessions = constructed w3 candidates
                 (PieceSize up * word_of_int (NumPieces ec) * numChunks w2 f) (Duration up) (masterKey f)"
  shows "(int (length sessions) < MinPieces ec \<longrightarrow>
            Upload ovh U sched up0 (r, w0) =
              Some (Some (ErrOther ''not enough hosts to support upload''), r,
                    closeAll sessions (w3\<lparr>contacted := contacted w3 @ candidates\<rparr>))
            \<and> opened (closeAll sessions (w3\<lparr>contacted := contacted w3 @ candidates\<rparr>))
                = opened w0 @ [handle])
       \<and> (MinPieces ec \<le> int (length sessions) \<longrightarrow>
            Upload ovh U sched up0 (r, w0) =
              transfer U sched (Nickname up) f handle sessions
                (r, w3\<lparr>contacted := contacted w3 @ candidates\<rparr>))"
proof -
  have o2: "opened w2 = opened w0 @ [handle]"
    using checkWalletBalance_env[OF bal] by auto
  have o3: "opened w3 = opened w0 @ [handle]"
    using cands o2 by (auto simp: RandomHosts_def)
  have U: "Upload ovh U sched up0 (r, w0) =
      (if int (length sessions) < MinPieces ec
       then Some (Some (ErrOther ''not enough hosts to support upload''), r,
                    closeAll sessions (w3\<lparr>contacted := contacted w3 @ candidates\<rparr>))
       else transfer U sched (Nickname up) f handle sessions
                (r, w3\<lparr>contacted := contacted w3 @ candidates\<rparr>))"
    using ext op nick st sz bal[unfolded up] ec[unfolded up] cands[unfolded up]
    unfolding Upload_def connectAndTransfer_def sess f up
    by (simp add: Let_def connectHosts_eq)
  show ?thesis
    using U o3 by (simp add: closeAll_def)
qed

lemma sample_floor:
  assumes "0 \<le> n" and "n < 2 ^ 61"
  shows "int_quo (int_mul n 3) 2 = \<lfloor>real_of_int n * 3 / 2\<rfloor>"
proof -
  have "int_mul n 3 = n * 3"
    using assms by (simp add: int_mul_def)
  then have "int_quo (int_mul n 3) 2 = n * 3 div 2"
    using assms by (simp add: int_quo_def sgn_if)
  also have "\<dots> = \<lfloor>real_of_int n * 3 / 2\<rfloor>"
    using floor_divide_of_int_eq[of "n * 3" 2, where ?'a = real] by simp
  finally show ?thesis .
qed

lemma transfer_env:
  "transfer U sched nick f handle hosts (r, w) = Some (res, r', w') \<Longrightarrow>
     requested w' = requested w \<and> contacted w' = contacted w"
  by (auto simp: transfer_def closeAll_def Let_def split: option.splits if_splits prod.splits)

lemma fillDefaults_code:
  "ErasureCode (fillDefaults ovh w fi up) =
     Some (case ErasureCode up of None \<Rightarrow> NewRSCode w defaultDataPieces defaultParityPieces
           | Some c \<Rightarrow> c)"
  by (auto simp: fillDefaults_def Let_def split: option.splits)

lemma fillDefaults_names:
  "Nickname (fillDefaults ovh w fi up) = Nickname up \<and> Filename (fillDefaults ovh w fi up) = Filename up"
  by (auto simp: fillDefaults_def Let_def)

lemma Upload_requested:
  assumes "Upload ovh U sched up (r, w) = Some (res, r', w')"
    and "ec = (case ErasureCode up of None \<Rightarrow> NewRSCode w defaultDataPieces defaultParityPieces
               | Some c \<Rightarrow> c)"
    and "k = int_quo (int_mul (NumPieces ec) 3) 2"
  shows "requested w' = requested w \<or> requested w' = requested w @ [k]
       \<or> requested w' = requested w @ [k, k]"
proof (cases "Ext (Filename up) = Ext (Nickname up)")
  case False
  then show ?thesis using assms(1) by (simp add: Upload_def connectAndTransfer_def)
next
  case ext: True
  show ?thesis
  proof (cases "osOpen w (Filename up)")
    case (Inl e)
    then show ?thesis using assms(1) ext by (simp add: Upload_def connectAndTransfer_def)
  next
    case (Inr handle)
    let ?w1 = "w\<lparr>opened := opened w @ [handle]\<rparr>"
    show ?thesis
    proof (cases "files r (Nickname up) = None \<and> (\<exists>fi. handleStat w (Filename up) = Inr fi
                    \<and> Size fi \<le> 5 * 1024 * 1024 * 1024)")
      case False
      then show ?thesis using assms(1) ext Inr
        by (auto simp: Upload_def connectAndTransfer_def Let_def split: sum.splits if_splits)
    next
      case True
      then obtain fi where nick: "files r (Nickname up) = None"
        and st: "handleStat w (Filename up) = Inr fi" and sz: "Size fi \<le> 5 * 1024 * 1024 * 1024"
        by auto
      let ?up = "fillDefaults ovh ?w1 fi up"
      have code: "ErasureCode ?up = Some ec"
        using assms(2) by (simp add: fillDefaults_code split: option.splits)
      show ?thesis
      proof (cases "checkWalletBalance ?up ?w1")
        case None
        then show ?thesis using assms(1) ext Inr nick st sz
          by (simp add: Upload_def connectAndTransfer_def Let_def)
      next
        case (Some a)
        obtain res2 w2 where a: "a = (res2, w2)" by (cases a)
        have w2: "requested w2 = requested w \<or> requested w2 = requested w @ [k]"
          using checkWalletBalance_env[OF Some[unfolded a]] code assms(3) by auto
        show ?thesis
        proof (cases res2)
          case (Some e)
          then have "w' = w2"
            using assms(1) ext Inr nick st sz \<open>checkWalletBalance ?up ?w1 = Some a\<close> a
            by (simp add: Upload_def connectAndTransfer_def Let_def)
          then show ?thesis using w2 by auto
        next
          case None
          from \<open>checkWalletBalance ?up ?w1 = Some a\<close> a None code
          have "requested w2 = requested w @ [k]"
            using assms(3)
            by (auto simp: checkWalletBalance_def RandomHosts_def Let_def
                split: sum.splits option.splits if_splits)
          moreover have "requested w' = requested w2 @ [k]"
            using assms(1) ext Inr nick st sz \<open>checkWalletBalance ?up ?w1 = Some a\<close> a None code assms(3)
            by (auto simp: Upload_def connectAndTransfer_def Let_def RandomHosts_def connectHosts_eq closeAll_def
                split: if_splits dest!: transfer_env)
          ultimately show ?thesis by simp
        qed
      qed
    qed
  qed
qed

text \<open>
  C7, amended. For a number of pieces from 0 to below \<open>2\<^sup>6\<^sup>1\<close>, the balance check asks the
  host database for \<open>\<lfloor>NumPieces * 3 / 2\<rfloor>\<close> candidates, and every request \<^verbatim>\<open>Upload\<close> makes
  (at most two: the balance check's and the host selection's) is for that number.
\<close>

theorem sample_size_floor:
  assumes "0 \<le> NumPieces ec" and "NumPieces ec < 2 ^ 61"
    and "k = \<lfloor>real_of_int (NumPieces ec) * 3 / 2\<rfloor>"
  shows "(ErasureCode up = Some ec \<and> osStat w (Filename up) = Inr fi \<longrightarrow>
            (\<exists>res w'. checkWalletBalance up w = Some (res, w') \<and> requested w' = requested w @ [k]))
       \<and> ((case ErasureCode up of None \<Rightarrow> NewRSCode w defaultDataPieces defaultParityPieces
              | Some c \<Rightarrow> c) = ec
            \<and> Upload ovh U sched up (r, w) = Some (res, r', w') \<longrightarrow>
            (\<exists>ks. requested w' = requested w @ ks \<and> set ks \<subseteq> {k} \<and> length ks \<le> 2))"
proof (intro conjI impI)
  assume a: "ErasureCode up = Some ec \<and> osStat w (Filename up) = Inr fi"
  have k: "int_quo (int_mul (NumPieces ec) 3) 2 = k"
    using sample_floor[OF assms(1,2)] assms(3) by simp
  show "\<exists>res w'. checkWalletBalance up w = Some (res, w') \<and> requested w' = requested w @ [k]"
    using a k by (auto simp: checkWalletBalance_def RandomHosts_def Let_def)
next
  assume a: "(case ErasureCode up of None \<Rightarrow> NewRSCode w defaultDataPieces defaultParityPieces
              | Some c \<Rightarrow> c) = ec
            \<and> Upload ovh U sched up (r, w) = Some (res, r', w')"
  have k: "k = int_quo (int_mul (NumPieces ec) 3) 2"
    using sample_floor[OF assms(1,2)] assms(3) by simp
  from a have u: "Upload ovh U sched up (r, w) = Some (res, r', w')"
    and e: "ec = (case ErasureCode up of None \<Rightarrow> NewRSCode w defaultDataPieces defaultParityPieces
               | Some c \<Rightarrow> c)" by auto
  from Upload_requested[OF u e k]
  consider "requested w' = requested w @ []" | "requested w' = requested w @ [k]"
    | "requested w' = requested w @ [k, k]" by auto
  then show "\<exists>ks. requested w' = requested w @ ks \<and> set ks \<subseteq> {k} \<and> length ks \<le> 2"
  proof cases
    case 1
    then show ?thesis by (intro exI[of _ "[]"]) simp
  next
    case 2
    then show ?thesis by (intro exI[of _ "[k]"]) simp
  next
    case 3
    then show ?thesis by (intro exI[of _ "[k, k]"]) simp
  qed
qed

lemma step_pieceSize: "step U a s = Some s' \<Longrightarrow> pieceSize (fl s') = pieceSize (fl s)"
  by (cases a) (auto simp: mainStep_def Let_def split: step_splits)

lemma run_pieceSize: "run U es s = Some s' \<Longrightarrow> pieceSize (fl s') = pieceSize (fl s)"
proof (induction es arbitrary: s)
  case Nil
  then show ?case by simp
next
  case (Cons a es)
  from Cons.prems obtain s1 where s1: "step U a s = Some s1" and r: "run U es s1 = Some s'"
    by (auto split: option.splits)
  from step_pieceSize[OF s1] Cons.IH[OF r] show ?case by simp
qed

lemma upload_pieceSize:
  "upload U sched f handle hosts = Some (e, s) \<Longrightarrow> pieceSize (fl s) = pieceSize f"
  by (auto simp: upload_def spawned_def split: option.splits upload_pc.splits dest!: run_pieceSize)

lemma transfer_success:
  "transfer U sched nick f handle hosts (r, w) = Some (None, r', w') \<Longrightarrow>
     \<exists>s. upload U sched f handle hosts = Some (None, s) \<and> files r' nick = Some (fl s)"
  by (auto simp: transfer_def save_def Let_def split: option.splits if_splits prod.splits)

lemma Upload_success:
  assumes "Upload ovh U sched up (r, w) = Some (None, r', w')"
  shows "\<exists>handle fi f. osOpen w (Filename up) = Inr handle \<and> handleStat w (Filename up) = Inr fi
           \<and> files r' (Nickname up) = Some f
           \<and> pieceSize f = PieceSize (fillDefaults ovh (w\<lparr>opened := opened w @ [handle]\<rparr>) fi up)"
proof -
  from assms obtain handle where op: "osOpen w (Filename up) = Inr handle"
    by (auto simp: Upload_def connectAndTransfer_def split: if_splits sum.splits)
  let ?w1 = "w\<lparr>opened := opened w @ [handle]\<rparr>"
  from assms op obtain fi where st: "handleStat w (Filename up) = Inr fi"
    by (auto simp: Upload_def connectAndTransfer_def Let_def split: if_splits sum.splits)
  let ?up = "fillDefaults ovh ?w1 fi up"
  from assms op st obtain w2 ec where bal: "checkWalletBalance ?up ?w1 = Some (None, w2)"
    and ec: "ErasureCode ?up = Some ec"
    by (auto simp: Upload_def connectAndTransfer_def Let_def split: if_splits option.splits)
  obtain f where f: "f = (newFile (GenerateTwofishKey w2) (Nickname ?up) ec (PieceSize ?up)
                (word_of_int (Size fi)))\<lparr>mode := Mode fi\<rparr>" by simp
  from assms op st bal ec obtain hosts w4 where
    "transfer U sched (Nickname ?up) f handle hosts (r, w4) = Some (None, r', w')"
    by (auto simp: Upload_def connectAndTransfer_def Let_def f split: if_splits prod.splits)
  from transfer_success[OF this] obtain s where
    u: "upload U sched f handle hosts = Some (None, s)" and fs: "files r' (Nickname ?up) = Some (fl s)"
    by auto
  have "pieceSize (fl s) = PieceSize ?up"
    using upload_pieceSize[OF u] by (simp add: f newFile_def)
  with fs op st show ?thesis by (auto simp: fillDefaults_names)
qed

lemma fillDefaults_pieceSize:
  "PieceSize up = 0 \<Longrightarrow>
     PieceSize (fillDefaults ovh w fi up) = word_of_int (defaultPieceSize ovh)
     \<or> PieceSize (fillDefaults ovh w fi up) = word_of_int (smallPieceSize ovh)"
  by (auto simp: fillDefaults_def Let_def)

lemma fillDefaults_given:
  "PieceSize up \<noteq> 0 \<Longrightarrow> PieceSize (fillDefaults ovh w fi up) = PieceSize up"
  by (auto simp: fillDefaults_def Let_def)

lemma uint_word64: "0 \<le> x \<Longrightarrow> x < 2 ^ 64 \<Longrightarrow> uint (word_of_int x :: 64 word) = x"
  by (simp add: uint_word_of_int)

lemma piece_size_plus_overhead:
  assumes "0 \<le> ovh" and "ovh \<le> 2 ^ 16"
    and "p = (word_of_int (defaultPieceSize ovh) :: 64 word) \<or> p = word_of_int (smallPieceSize ovh)"
  shows "64 dvd (uint p + ovh) \<and> (64 dvd uint p \<longleftrightarrow> 64 dvd ovh)"
proof -
  have d: "uint (word_of_int (defaultPieceSize ovh) :: 64 word) = 4194304 - ovh"
    using assms(1,2) uint_word64[of "defaultPieceSize ovh"] by (simp add: defaultPieceSize_def)
  have s: "uint (word_of_int (smallPieceSize ovh) :: 64 word) = 65536 - ovh"
    using assms(1,2) uint_word64[of "smallPieceSize ovh"] by (simp add: smallPieceSize_def)
  from assms(3) have "uint p = 4194304 - ovh \<or> uint p = 65536 - ovh"
    using d s by auto
  then show ?thesis by presburger
qed

text \<open>
  C9, amended. When the caller supplies no piece size and the cipher's overhead is between
  0 and \<open>2\<^sup>1\<^sup>6\<close>, the file record of a successful \<^verbatim>\<open>Upload\<close> has piece size
  \<open>2\<^sup>2\<^sup>2 - overhead\<close> or \<open>2\<^sup>1\<^sup>6 - overhead\<close>: the piece size plus the overhead (the
  encrypted piece) is a multiple of 64, and the piece size itself is one exactly if the
  overhead is.
\<close>

theorem default_piece_size_aligned:
  assumes "PieceSize up = 0" and "0 \<le> ovh" and "ovh \<le> 2 ^ 16"
    and "Upload ovh U sched up (r, w) = Some (None, r', w')"
  shows "\<exists>f. files r' (Nickname up) = Some f
          \<and> (pieceSize f = word_of_int (defaultPieceSize ovh)
               \<or> pieceSize f = word_of_int (smallPieceSize ovh))
          \<and> 64 dvd (uint (pieceSize f) + ovh)
          \<and> (64 dvd uint (pieceSize f) \<longleftrightarrow> 64 dvd ovh)"
proof -
  from Upload_success[OF assms(4)] obtain handle fi f where
    f: "files r' (Nickname up) = Some f"
    and p: "pieceSize f = PieceSize (fillDefaults ovh (w\<lparr>opened := opened w @ [handle]\<rparr>) fi up)"
    by auto
  have c: "pieceSize f = word_of_int (defaultPieceSize ovh)
               \<or> pieceSize f = word_of_int (smallPieceSize ovh)"
    using fillDefaults_pieceSize[OF assms(1)] p by simp
  from piece_size_plus_overhead[OF assms(2,3) c] f c show ?thesis by simp
qed

lemmas ev = Upload_def connectAndTransfer_def Ext_a checkWalletBalance_def fillDefaults_def testEnv_def testParams_def RandomHosts_def
     testCode_def int_quo_test testCandidates_def hostD_def defaultDuration_def emptyRenter_def newFile_def
     transfer_def upload_def closeAll_def save_def defaultPieceSize_def smallPieceSize_def strictParams_def
     schedBC_def spawned_def mainStep_def ReadFull_def chunkSize_def diskA_def testUploader_def
     hostB_def hostC_def createdFile_def renterDone_def envDone_def envStrict_def bigEnv_def poorEnv_def
     freeEnv_def missingParams_def oddParams_def constructed_def

lemma Upload_testParams:
  "Upload 28 testUploader schedBC testParams (emptyRenter, testEnv) = Some (None, renterDone, envDone)"
  by (simp add: ev)

lemma Upload_strictParams:
  "Upload 28 testUploader [] strictParams (emptyRenter, testEnv) =
     Some (Some (ErrOther ''not enough hosts to support upload''), emptyRenter, envStrict)"
  by (simp add: ev)

text \<open>
  C9 as stated fails: a caller-supplied piece size of 2 is taken as it is, and the file
  record of the successful upload has piece size 2, which is no multiple of 64.
\<close>

theorem piece_size_counterexample:
  "Upload 28 testUploader schedBC testParams (emptyRenter, testEnv) = Some (None, renterDone, envDone)
   \<and> map_option pieceSize (files renterDone ''b.txt'') = Some 2
   \<and> \<not> 64 dvd uint (2 :: 64 word)"
  by (simp add: Upload_testParams) (simp add: renterDone_def createdFile_def)

text \<open>
  C7 as stated fails: for an erasure code of 3 pieces the balance check requests 4
  candidates, while \<open>\<lceil>3 * 1.5\<rceil> = 5\<close>.
\<close>

theorem sample_size_counterexample:
  "checkWalletBalance oddParams testEnv = Some (None, testEnv\<lparr>requested := [4]\<rparr>)
   \<and> NumPieces (testCode\<lparr>NumPieces := 3\<rparr>) = 3
   \<and> \<lceil>real_of_int (NumPieces (testCode\<lparr>NumPieces := 3\<rparr>)) * 1.5\<rceil> = 5"
  by (simp add: ev)

text \<open>
  C8 as stated fails: when \<^verbatim>\<open>os.Stat\<close> fails, \<^verbatim>\<open>checkWalletBalance\<close> returns that error
  although the host database has a host to sample and, the host's price being 0, the
  doubled cost is 0 for every file size, which no balance is below.
\<close>

theorem checkWalletBalance_counterexample:
  "checkWalletBalance missingParams freeEnv = Some (Some (ErrOther ''stat: no such file''), freeEnv)
   \<and> hostDB freeEnv (requested freeEnv @ [int_quo (int_mul (NumPieces testCode) 3) 2]) \<noteq> []
   \<and> 2 * (sum_list (map Price (hostDB freeEnv (requested freeEnv @ [int_quo (int_mul (NumPieces testCode) 3) 2])))
           div length (hostDB freeEnv (requested freeEnv @ [int_quo (int_mul (NumPieces testCode) 3) 2])))
       * unat (Duration missingParams) = 0"
  by (simp add: ev)

theorem Upload_rejects_large_witness:
  "Upload 28 testUploader [] testParams (emptyRenter, bigEnv) =
     Some (Some (ErrOther ''cannot upload a file larger than 5 GB''), emptyRenter,
           bigEnv\<lparr>opened := opened bigEnv @ [diskA]\<rparr>)"
proof -
  have op: "osOpen bigEnv (Filename testParams) = Inr diskA"
    by (simp add: bigEnv_def testEnv_def testParams_def)
  have st: "handleStat bigEnv (Filename testParams) = Inr \<lparr>Size = 6 * 1024 * 1024 * 1024, Mode = 420\<rparr>"
    by (simp add: bigEnv_def)
  have sz: "Size \<lparr>Size = 6 * 1024 * 1024 * 1024, Mode = 420\<rparr> > 5 * 1024 * 1024 * 1024"
    by simp
  have ext: "Ext (Filename testParams) = Ext (Nickname testParams)"
    by (simp add: testParams_def Ext_a)
  have nick: "files emptyRenter (Nickname testParams) = None"
    by (simp add: emptyRenter_def)
  from Upload_rejects_large[OF op st sz, where ovh = 28 and U = testUploader and sched = "[]"
      and r = emptyRenter] ext nick
  show ?thesis by simp
qed

theorem Upload_host_sessions_witness:
  "Upload 28 testUploader [] strictParams (emptyRenter, testEnv) =
     Some (Some (ErrOther ''not enough hosts to support upload''), emptyRenter, envStrict)
   \<and> opened envStrict = opened testEnv @ [diskA]
   \<and> Upload 28 testUploader schedBC testParams (emptyRenter, testEnv) =
       transfer testUploader schedBC ''b.txt'' createdFile diskA [hostB, hostC]
         (emptyRenter, testEnv\<lparr>opened := [diskA], requested := [3, 3], contacted := testCandidates\<rparr>)"
proof -
  let ?w1 = "testEnv\<lparr>opened := opened testEnv @ [diskA]\<rparr>"
  let ?fi = "\<lparr>Size = 2, Mode = 420\<rparr>"
  let ?w2 = "testEnv\<lparr>opened := [diskA], requested := [3]\<rparr>"
  let ?w3 = "testEnv\<lparr>opened := [diskA], requested := [3, 3]\<rparr>"
  have extS: "Ext (Filename strictParams) = Ext (Nickname strictParams)"
    and extT: "Ext (Filename testParams) = Ext (Nickname testParams)"
    by (simp_all add: strictParams_def testParams_def Ext_a)
  have opS: "osOpen testEnv (Filename strictParams) = Inr diskA"
    and opT: "osOpen testEnv (Filename testParams) = Inr diskA"
    by (simp_all add: strictParams_def testParams_def testEnv_def)
  have nick: "files emptyRenter (Nickname p) = None" for p :: FileUploadParams
    by (simp add: emptyRenter_def)
  have st: "handleStat testEnv (Filename p) = Inr ?fi" for p :: FileUploadParams
    by (simp add: testEnv_def)
  have sz: "Size ?fi \<le> 5 * 1024 * 1024 * 1024" by simp
  have balS: "checkWalletBalance (fillDefaults 28 ?w1 ?fi strictParams) ?w1 = Some (None, ?w2)"
    and balT: "checkWalletBalance (fillDefaults 28 ?w1 ?fi testParams) ?w1 = Some (None, ?w2)"
    by (simp_all add: ev)
  have ecS: "ErasureCode (fillDefaults 28 ?w1 ?fi strictParams) = Some (testCode\<lparr>MinPieces := 3\<rparr>)"
    by (simp add: ev)
  have ecT: "ErasureCode (fillDefaults 28 ?w1 ?fi testParams) = Some testCode"
    by (simp add: ev)
  have candsS: "RandomHosts ?w2 (int_quo (int_mul (NumPieces (testCode\<lparr>MinPieces := 3\<rparr>)) 3) 2)
      = (testCandidates, ?w3)"
    by (simp add: ev)
  have candsT: "RandomHosts ?w2 (int_quo (int_mul (NumPieces testCode) 3) 2) = (testCandidates, ?w3)"
    by (simp add: ev)
  note S = Upload_host_sessions[OF extS opS nick st sz refl balS ecS refl candsS refl,
      where U = testUploader and sched = "[]"]
  note T = Upload_host_sessions[OF extT opT nick st sz refl balT ecT refl candsT refl,
      where U = testUploader and sched = schedBC]
  from S T show ?thesis
    by (simp add: ev)
qed

theorem sample_size_floor_witness:
  "(\<exists>res w'. checkWalletBalance strictParams testEnv = Some (res, w')
       \<and> requested w' = requested testEnv @ [3])
   \<and> (\<exists>ks. requested envStrict = requested testEnv @ ks \<and> set ks \<subseteq> {3} \<and> length ks \<le> 2)"
proof -
  have n: "0 \<le> NumPieces (testCode\<lparr>MinPieces := 3\<rparr>)" "NumPieces (testCode\<lparr>MinPieces := 3\<rparr>) < 2 ^ 61"
    by (simp_all add: testCode_def)
  have k: "(3::int) = \<lfloor>real_of_int (NumPieces (testCode\<lparr>MinPieces := 3\<rparr>)) * 3 / 2\<rfloor>"
    by (simp add: testCode_def)
  have c: "ErasureCode strictParams = Some (testCode\<lparr>MinPieces := 3\<rparr>)
      \<and> osStat testEnv (Filename strictParams) = Inr \<lparr>Size = 2, Mode = 420\<rparr>"
    by (simp add: strictParams_def testParams_def testEnv_def)
  have e: "(case ErasureCode strictParams of
              None \<Rightarrow> NewRSCode testEnv defaultDataPieces defaultParityPieces | Some c \<Rightarrow> c)
           = testCode\<lparr>MinPieces := 3\<rparr>"
    by (simp add: strictParams_def)
  from sample_size_floor[OF n k, where up = strictParams and w = testEnv
      and fi = "\<lparr>Size = 2, Mode = 420\<rparr>" and ovh = 28 and U = testUploader and sched = "[]"
      and r = emptyRenter and res = "Some (ErrOther ''not enough hosts to support upload'')"
      and r' = emptyRenter and w' = envStrict]
    c e Upload_strictParams
  show ?thesis by simp
qed

theorem checkWalletBalance_iff_witness:
  "checkWalletBalance (fillDefaults 28 (poorEnv\<lparr>opened := opened poorEnv @ [diskA]\<rparr>)
        \<lparr>Size = 2, Mode = 420\<rparr> testParams) (poorEnv\<lparr>opened := opened poorEnv @ [diskA]\<rparr>)
     = Some (Some (ErrOther ''insufficient balance for upload''),
             poorEnv\<lparr>opened := [diskA], requested := [3]\<rparr>)
   \<and> Upload 28 testUploader [] testParams (emptyRenter, poorEnv)
     = Some (Some (ErrOther ''insufficient balance for upload''), emptyRenter,
             poorEnv\<lparr>opened := [diskA], requested := [3]\<rparr>)"
proof -
  let ?w = "poorEnv\<lparr>opened := opened poorEnv @ [diskA]\<rparr>"
  let ?fi = "\<lparr>Size = 2, Mode = 420\<rparr>"
  let ?up = "fillDefaults 28 ?w ?fi testParams"
  have st: "osStat ?w (Filename ?up) = Inr ?fi" by (simp add: ev)
  have ec: "ErasureCode ?up = Some testCode" by (simp add: ev)
  have val: "checkWalletBalance ?up ?w
     = Some (Some (ErrOther ''insufficient balance for upload''),
             poorEnv\<lparr>opened := [diskA], requested := [3]\<rparr>)"
    by (simp add: ev)
  have pre: "Ext (Filename testParams) = Ext (Nickname testParams)
      \<and> osOpen poorEnv (Filename testParams) = Inr diskA
      \<and> files emptyRenter (Nickname testParams) = None
      \<and> handleStat poorEnv (Filename testParams) = Inr ?fi
      \<and> Size ?fi \<le> 5 * 1024 * 1024 * 1024"
    by (simp add: ev)
  from checkWalletBalance_iff[OF st ec refl refl, where ?up0.0 = testParams and ?w0.0 = poorEnv
      and handle = diskA and r = emptyRenter and ?fi0.0 = ?fi and ovh = 28 and U = testUploader
      and sched = "[]"]
  obtain res w' where r: "checkWalletBalance ?up ?w = Some (res, w')"
    and u: "res \<noteq> None \<and> Ext (Filename testParams) = Ext (Nickname testParams)
      \<and> osOpen poorEnv (Filename testParams) = Inr diskA
      \<and> files emptyRenter (Nickname testParams) = None
      \<and> handleStat poorEnv (Filename testParams) = Inr ?fi
      \<and> Size ?fi \<le> 5 * 1024 * 1024 * 1024
      \<and> ?w = poorEnv\<lparr>opened := opened poorEnv @ [diskA]\<rparr> \<and> ?up = fillDefaults 28 ?w ?fi testParams
      \<longrightarrow> Upload 28 testUploader [] testParams (emptyRenter, poorEnv) = Some (res, emptyRenter, w')"
    by blast
  from r val have "res = Some (ErrOther ''insufficient balance for upload'')"
    and "w' = poorEnv\<lparr>opened := [diskA], requested := [3]\<rparr>" by simp_all
  with u pre val show ?thesis by simp
qed

theorem default_piece_size_aligned_witness:
  "\<exists>f r' w'. Upload 28 testUploader schedBC (testParams\<lparr>PieceSize := 0\<rparr>) (emptyRenter, testEnv)
        = Some (None, r', w')
     \<and> files r' (Nickname (testParams\<lparr>PieceSize := 0\<rparr>)) = Some f
     \<and> pieceSize f = 65508 \<and> 64 dvd (uint (pieceSize f) + 28)"
proof -
  have "\<exists>r' w'. Upload 28 testUploader schedBC (testParams\<lparr>PieceSize := 0\<rparr>) (emptyRenter, testEnv)
        = Some (None, r', w')"
    by (simp add: ev)
  then obtain r' w' where u: "Upload 28 testUploader schedBC (testParams\<lparr>PieceSize := 0\<rparr>)
      (emptyRenter, testEnv) = Some (None, r', w')" by blast
  have p: "PieceSize (testParams\<lparr>PieceSize := 0\<rparr>) = 0" by simp
  have o: "(0::int) \<le> 28" "(28::int) \<le> 2 ^ 16" by simp_all
  from default_piece_size_aligned[OF p o u] obtain f where
    f: "files r' (Nickname (testParams\<lparr>PieceSize := 0\<rparr>)) = Some f"
    and c: "pieceSize f = word_of_int (defaultPieceSize 28) \<or> pieceSize f = word_of_int (smallPieceSize 28)"
    and d: "64 dvd (uint (pieceSize f) + 28)" by blast
  from Upload_success[OF u] f have "pieceSize f = 65508"
    by (auto simp: ev)
  with u f d show ?thesis by blast
qed

end
